theory Spec2Isabelle
  imports Main
begin

section \<open>The submission gate of \<open>src/js/form-handler.js\<close>\<close>

subsection \<open>Configuration, storage, clock and timers\<close>

text \<open>
  \<open>window.APP_CONFIG.RATE_LIMIT\<close>: the policy the handler reads. The configuration itself
  is supplied by the page, so it is a parameter of every operation; \<open>None\<close> stands for a
  missing configuration or a missing (falsy) \<open>RATE_LIMIT\<close> entry. Timestamps and counts are
  integers (milliseconds, as \<open>Date.now()\<close> returns them).
\<close>

record rate_limit =
  MAX_ATTEMPTS_PER_HOUR :: int
  ATTEMPT_WINDOW_HOURS :: int
  STORAGE_KEY :: string
  BLOCK_MESSAGE :: string

type_synonym config = "rate_limit option"

datatype js_error = SecurityError | QuotaExceededError | TypeError | SyntaxError

text \<open>
  A text stored under the attempt key, named by what \<open>JSON.parse\<close> makes of it: the empty
  text (falsy in JavaScript); a text on which \<open>JSON.parse\<close> throws; the text
  \<open>JSON.stringify\<close> writes for an array of timestamps, which \<open>JSON.parse\<close> reads back as
  that array; and a text that parses to a value that is not an array (\<open>null\<close>, a boolean, a
  number, a string or an object), which another script or the user may have stored. The
  elements of an array are integer timestamps.
\<close>

datatype stored_text = Empty_text | Malformed_text | Attempts_text "int list" | Other_json_text

text \<open>
  What \<open>JSON.parse\<close> returns for such a text. A value that is not an array has no method
  \<open>filter\<close> and no method \<open>push\<close>: calling one throws a \<open>TypeError\<close>, for \<open>null\<close> as for
  the others.
\<close>

datatype parsed = Attempts "int list" | Not_an_array

text \<open>
  The part of the browser the handler touches: \<open>localStorage\<close> (its items; whether every
  access is refused; whether the quota is exhausted, so that writes throw), the clock
  (\<open>Date.now()\<close>: the \<open>k\<close>-th reading is \<open>clock k\<close>), the pending \<open>setTimeout\<close>
  callbacks that run \<open>resetRateLimit\<close> (identifier and delay), the handler's field
  \<open>resetTimeout\<close>, and the two things \<open>updateRateLimitDisplay\<close> leaves on the page: the
  counts it was given and whether the submit buttons are disabled.
\<close>

record browser =
  items :: "string \<Rightarrow> stored_text option"
  access_denied :: bool
  quota_full :: bool
  clock :: "nat \<Rightarrow> int"
  reads :: nat
  timers :: "(nat \<times> int) list"
  next_timer :: nat
  resetTimeout :: "nat option"
  display :: "(int \<times> int) option"
  submit_disabled :: bool

definition getItem :: "browser \<Rightarrow> string \<Rightarrow> js_error + stored_text option" where
  "getItem b k = (if access_denied b then Inl SecurityError else Inr (items b k))"

definition setItem :: "browser \<Rightarrow> string \<Rightarrow> stored_text \<Rightarrow> js_error + browser" where
  "setItem b k v =
     (if access_denied b then Inl SecurityError
      else if quota_full b then Inl QuotaExceededError
      else Inr (b\<lparr>items := (items b)(k \<mapsto> v)\<rparr>))"

definition removeItem :: "browser \<Rightarrow> string \<Rightarrow> js_error + browser" where
  "removeItem b k =
     (if access_denied b then Inl SecurityError
      else Inr (b\<lparr>items := (items b)(k := None)\<rparr>))"

definition JSON_parse :: "stored_text \<Rightarrow> js_error + parsed" where
  "JSON_parse txt =
     (case txt of
        Attempts_text xs \<Rightarrow> Inr (Attempts xs)
      | Other_json_text \<Rightarrow> Inr Not_an_array
      | Malformed_text \<Rightarrow> Inl SyntaxError
      | Empty_text \<Rightarrow> Inl SyntaxError)"

text \<open>\<open>attempts.filter(f)\<close> and \<open>attempts.push(x)\<close>, the array after the push.\<close>

definition filter_method :: "parsed \<Rightarrow> (int \<Rightarrow> bool) \<Rightarrow> js_error + int list" where
  "filter_method attempts f =
     (case attempts of Attempts xs \<Rightarrow> Inr (filter f xs) | Not_an_array \<Rightarrow> Inl TypeError)"

definition push_method :: "parsed \<Rightarrow> int \<Rightarrow> js_error + int list" where
  "push_method attempts x =
     (case attempts of Attempts xs \<Rightarrow> Inr (xs @ [x]) | Not_an_array \<Rightarrow> Inl TypeError)"

definition JSON_stringify :: "int list \<Rightarrow> stored_text" where
  "JSON_stringify xs = Attempts_text xs"

text \<open>\<open>Date.now()\<close>: the current reading, and the browser after the reading.\<close>

definition Date_now :: "browser \<Rightarrow> int" where
  "Date_now b = clock b (reads b)"

definition tick :: "browser \<Rightarrow> browser" where
  "tick b = b\<lparr>reads := Suc (reads b)\<rparr>"

text \<open>\<open>windowHours * 60 * 60 * 1000\<close>\<close>

definition window_ms :: "rate_limit \<Rightarrow> int" where
  "window_ms rl = ATTEMPT_WINDOW_HOURS rl * 60 * 60 * 1000"

subsection \<open>Reading and writing the attempt log\<close>

text \<open>
  \<open>getSubmissionAttempts\<close>: the \<open>try\<close> block reads the item and parses it; a missing
  item and an empty text give the empty array, and the \<open>catch\<close> block turns every
  exception into the empty array. What \<open>JSON.parse\<close> returns is returned as it is, array or
  not. The \<open>console.error\<close> trace is not part of the model.
\<close>

definition getSubmissionAttempts :: "config \<Rightarrow> browser \<Rightarrow> parsed" where
  "getSubmissionAttempts cfg b =
     (case cfg of
        None \<Rightarrow> Attempts []
      | Some rl \<Rightarrow>
          (case getItem b (STORAGE_KEY rl) of
             Inl e \<Rightarrow> Attempts []
           | Inr None \<Rightarrow> Attempts []
           | Inr (Some txt) \<Rightarrow>
               (if txt = Empty_text then Attempts []
                else (case JSON_parse txt of Inl e \<Rightarrow> Attempts [] | Inr v \<Rightarrow> v))))"

text \<open>
  \<open>saveSubmissionAttempts\<close>: the \<open>catch\<close> block drops the exception of \<open>setItem\<close>, so
  the result is always a browser, never an error.
\<close>

definition saveSubmissionAttempts :: "config \<Rightarrow> browser \<Rightarrow> int list \<Rightarrow> browser" where
  "saveSubmissionAttempts cfg b attempts =
     (case cfg of
        None \<Rightarrow> b
      | Some rl \<Rightarrow>
          (case setItem b (STORAGE_KEY rl) (JSON_stringify attempts) of
             Inl e \<Rightarrow> b
           | Inr b' \<Rightarrow> b'))"

subsection \<open>\<open>canSubmit\<close>\<close>

text \<open>
  The answer of \<open>canSubmit\<close> and the browser after it, or the exception of
  \<open>attempts.filter\<close>, which nothing catches.
\<close>

definition canSubmit :: "config \<Rightarrow> browser \<Rightarrow> js_error + bool \<times> browser" where
  "canSubmit cfg b =
     (case cfg of
        None \<Rightarrow> Inr (True, b)
      | Some rl \<Rightarrow>
          (let attempts = getSubmissionAttempts cfg b;
               maxAttempts = MAX_ATTEMPTS_PER_HOUR rl;
               now = Date_now b;
               b1 = tick b;
               windowStart = now - window_ms rl
           in (case filter_method attempts (\<lambda>timestamp. timestamp > windowStart) of
                 Inl e \<Rightarrow> Inl e
               | Inr recentAttempts \<Rightarrow> Inr (int (length recentAttempts) < maxAttempts, b1))))"

subsection \<open>Display, scheduling and reset\<close>

definition updateRateLimitDisplay :: "browser \<Rightarrow> int \<Rightarrow> int \<Rightarrow> browser" where
  "updateRateLimitDisplay b remaining mx =
     b\<lparr>display := Some (remaining, mx), submit_disabled := (remaining = 0)\<rparr>"

text \<open>\<open>clearTimeout\<close> removes the pending callback with that identifier, if there is one.\<close>

definition clearTimeout :: "browser \<Rightarrow> nat \<Rightarrow> browser" where
  "clearTimeout b i = b\<lparr>timers := filter (\<lambda>t. fst t \<noteq> i) (timers b)\<rparr>"

text \<open>\<open>setTimeout\<close> registers the callback under a fresh identifier and returns it.\<close>

definition setTimeout :: "browser \<Rightarrow> int \<Rightarrow> nat \<times> browser" where
  "setTimeout b delay =
     (next_timer b, b\<lparr>timers := timers b @ [(next_timer b, delay)], next_timer := Suc (next_timer b)\<rparr>)"

text \<open>\<open>if (this.resetTimeout)\<close>: an identifier is truthy unless it is \<open>0\<close>.\<close>

definition clear_existing :: "browser \<Rightarrow> browser" where
  "clear_existing b =
     (case resetTimeout b of
        None \<Rightarrow> b
      | Some i \<Rightarrow> (if i \<noteq> 0 then clearTimeout b i else b))"

text \<open>\<open>Math.min(...xs)\<close> of a non-empty array.\<close>

definition Math_min :: "int \<Rightarrow> int list \<Rightarrow> int" where
  "Math_min x xs = fold min xs x"

text \<open>
  The three methods call each other: \<open>checkAndUpdateRateLimitDisplay\<close> may call
  \<open>scheduleRateLimitReset\<close>, which resets at once when the delay is not positive;
  \<open>resetRateLimit\<close> removes the log and calls \<open>checkAndUpdateRateLimitDisplay\<close> again.
  \<open>attempts.filter\<close> and \<open>removeItem\<close> can throw here, and nothing catches it: the
  exception is the result.
\<close>

function checkAndUpdateRateLimitDisplay :: "config \<Rightarrow> browser \<Rightarrow> js_error + browser"
  and scheduleRateLimitReset :: "config \<Rightarrow> browser \<Rightarrow> int \<Rightarrow> js_error + browser"
  and resetRateLimit :: "config \<Rightarrow> browser \<Rightarrow> js_error + browser"
where
  "checkAndUpdateRateLimitDisplay cfg b =
     (case cfg of
        None \<Rightarrow> Inr b
      | Some rl \<Rightarrow>
          (let attempts = getSubmissionAttempts cfg b;
               maxAttempts = MAX_ATTEMPTS_PER_HOUR rl;
               now = Date_now b;
               b1 = tick b;
               windowStart = now - window_ms rl
           in (case filter_method attempts (\<lambda>timestamp. timestamp > windowStart) of
                 Inl e \<Rightarrow> Inl e
               | Inr recentAttempts \<Rightarrow>
                   (let remainingAttempts = max 0 (maxAttempts - int (length recentAttempts));
                        b2 = updateRateLimitDisplay b1 remainingAttempts maxAttempts
                    in (case recentAttempts of
                          [] \<Rightarrow> Inr b2
                        | x # xs \<Rightarrow>
                            (if remainingAttempts = 0
                             then scheduleRateLimitReset cfg b2 (Math_min x xs + window_ms rl)
                             else Inr b2))))))"
| "scheduleRateLimitReset cfg b resetTime =
     (let now = Date_now b;
          b1 = tick b;
          delay = max 0 (resetTime - now)
      in if delay \<le> 0 then resetRateLimit cfg b1
         else (let b2 = clear_existing b1;
                   (i, b3) = setTimeout b2 delay
               in Inr (b3\<lparr>resetTimeout := Some i\<rparr>)))"
| "resetRateLimit cfg b =
     (case cfg of
        None \<Rightarrow> Inr b
      | Some rl \<Rightarrow>
          (case removeItem b (STORAGE_KEY rl) of
             Inl e \<Rightarrow> Inl e
           | Inr b1 \<Rightarrow>
               (case checkAndUpdateRateLimitDisplay cfg b1 of
                  Inl e \<Rightarrow> Inl e
                | Inr b2 \<Rightarrow> Inr (b2\<lparr>submit_disabled := False\<rparr>))))"
  by pat_completeness auto

text \<open>
  The calls end: \<open>checkAndUpdateRateLimitDisplay\<close> schedules only when the log it read has
  an entry, and \<open>resetRateLimit\<close> calls it back only after the log has been removed.
\<close>

termination
proof (relation "measure (\<lambda>x. case x of
      Inl (cfg, b) \<Rightarrow> (case getSubmissionAttempts cfg b of
                         Attempts (x # xs) \<Rightarrow> 4
                       | _ \<Rightarrow> 1)
    | Inr (Inl (cfg, b, resetTime)) \<Rightarrow> 3
    | Inr (Inr (cfg, b)) \<Rightarrow> 2)", goal_cases)
  case 1
  show ?case by simp
next
  case (2 cfg b rl attempts maxAttempts now b1 windowStart recentAttempts remainingAttempts b2 x xs)
  then obtain ys where "getSubmissionAttempts (Some rl) b = Attempts ys"
    and "filter (\<lambda>timestamp. timestamp > windowStart) ys = x # xs"
    by (auto simp: filter_method_def split: parsed.splits)
  then obtain y ys' where "getSubmissionAttempts (Some rl) b = Attempts (y # ys')"
    by (cases ys) auto
  with 2 show ?case by simp
next
  case 3
  show ?case by simp
next
  case (4 cfg b rl b1)
  then have "getSubmissionAttempts (Some rl) b1 = Attempts []"
    by (auto simp: removeItem_def getSubmissionAttempts_def getItem_def split: if_splits)
  with 4 show ?case by simp
qed

subsection \<open>\<open>recordSubmission\<close> and the timer callback\<close>

text \<open>
  \<open>recordSubmission\<close> reads the clock twice: once for the entry it pushes, once for the
  window it filters with. \<open>attempts.push\<close> throws when what was read is not an array.
\<close>

definition recordSubmission :: "config \<Rightarrow> browser \<Rightarrow> js_error + browser" where
  "recordSubmission cfg b =
     (case cfg of
        None \<Rightarrow> Inr b
      | Some rl \<Rightarrow>
          (let attempts = getSubmissionAttempts cfg b
           in (case push_method attempts (Date_now b) of
                 Inl e \<Rightarrow> Inl e
               | Inr attempts' \<Rightarrow>
                   (let b1 = tick b;
                        now = Date_now b1;
                        b2 = tick b1;
                        windowStart = now - window_ms rl;
                        recentAttempts = filter (\<lambda>timestamp. timestamp > windowStart) attempts';
                        b3 = saveSubmissionAttempts cfg b2 recentAttempts
                    in checkAndUpdateRateLimitDisplay cfg b3))))"

text \<open>
  The browser runs a pending callback once: the entry leaves the pending list and the
  arrow function of \<open>scheduleRateLimitReset\<close> calls \<open>resetRateLimit\<close>. An identifier that
  is not pending runs nothing.
\<close>

definition fire_timer :: "config \<Rightarrow> browser \<Rightarrow> nat \<Rightarrow> js_error + browser" where
  "fire_timer cfg b i =
     (if i \<in> fst ` set (timers b)
      then resetRateLimit cfg (b\<lparr>timers := filter (\<lambda>t. fst t \<noteq> i) (timers b)\<rparr>)
      else Inr b)"

subsection \<open>What the specification talks about\<close>

text \<open>
  The log as it is persisted: the array a later \<open>JSON.parse\<close> of the stored item gives,
  empty when there is no such array. The log as the handler can read it: empty when
  storage refuses access. And the case in which what is stored can be read and parsed but
  is not an array.
\<close>

definition persisted_log :: "rate_limit \<Rightarrow> browser \<Rightarrow> int list" where
  "persisted_log rl b =
     (case items b (STORAGE_KEY rl) of
        Some (Attempts_text xs) \<Rightarrow> xs
      | _ \<Rightarrow> [])"

definition readable_log :: "rate_limit \<Rightarrow> browser \<Rightarrow> int list" where
  "readable_log rl b = (if access_denied b then [] else persisted_log rl b)"

definition stored_not_array :: "rate_limit \<Rightarrow> browser \<Rightarrow> bool" where
  "stored_not_array rl b \<longleftrightarrow>
     \<not> access_denied b \<and> items b (STORAGE_KEY rl) = Some Other_json_text"

text \<open>The window of the specification, closed at both ends: \<open>[now - windowDuration, now]\<close>.\<close>

definition within_window :: "rate_limit \<Rightarrow> int \<Rightarrow> int \<Rightarrow> bool" where
  "within_window rl now t \<longleftrightarrow> now - window_ms rl \<le> t \<and> t \<le> now"

text \<open>The window the code filters with: open at the old end, with no upper end.\<close>

definition after_window_start :: "rate_limit \<Rightarrow> int \<Rightarrow> int \<Rightarrow> bool" where
  "after_window_start rl now t \<longleftrightarrow> now - window_ms rl < t"

text \<open>
  A failing read: \<open>getItem\<close> throws, or the stored text is one \<open>JSON.parse\<close> throws on.
  A failing write: \<open>setItem\<close> throws.
\<close>

definition read_fails :: "rate_limit \<Rightarrow> browser \<Rightarrow> bool" where
  "read_fails rl b =
     (case getItem b (STORAGE_KEY rl) of
        Inl e \<Rightarrow> True
      | Inr None \<Rightarrow> False
      | Inr (Some txt) \<Rightarrow> txt \<noteq> Empty_text \<and> isl (JSON_parse txt))"

definition write_fails :: "rate_limit \<Rightarrow> browser \<Rightarrow> int list \<Rightarrow> bool" where
  "write_fails rl b attempts = isl (setItem b (STORAGE_KEY rl) (JSON_stringify attempts))"

text \<open>
  The attempts that count at the reading \<open>now\<close> of the clock: those in the readable log
  that are later than \<open>now - windowDuration\<close>. With them, the remaining count and the
  instant \<open>oldest + windowDuration\<close>; the same instant for the closed window of the
  specification; and the browser once the display shows the remaining count.
\<close>

definition counted :: "rate_limit \<Rightarrow> browser \<Rightarrow> int list" where
  "counted rl b = filter (after_window_start rl (Date_now b)) (readable_log rl b)"

definition remaining_now :: "rate_limit \<Rightarrow> browser \<Rightarrow> int" where
  "remaining_now rl b = max 0 (MAX_ATTEMPTS_PER_HOUR rl - int (length (counted rl b)))"

definition reset_instant :: "rate_limit \<Rightarrow> browser \<Rightarrow> int" where
  "reset_instant rl b = Min (set (counted rl b)) + window_ms rl"

definition closed_window_instant :: "rate_limit \<Rightarrow> browser \<Rightarrow> int" where
  "closed_window_instant rl b =
     Min (set (filter (within_window rl (Date_now b)) (readable_log rl b))) + window_ms rl"

definition shown :: "rate_limit \<Rightarrow> browser \<Rightarrow> browser" where
  "shown rl b = updateRateLimitDisplay (tick b) (remaining_now rl b) (MAX_ATTEMPTS_PER_HOUR rl)"

text \<open>
  The log \<open>recordSubmission\<close> is to persist: the readable attempts and the new one, those
  later than \<open>now - windowDuration\<close> at its second clock reading.
\<close>

definition pruned :: "rate_limit \<Rightarrow> browser \<Rightarrow> int list" where
  "pruned rl b =
     filter (after_window_start rl (clock b (Suc (reads b))))
       (readable_log rl b @ [Date_now b])"

text \<open>
  At most one reset callback is pending, and it is the one the handler remembers in
  \<open>resetTimeout\<close>. Timer identifiers are positive.
\<close>

definition one_pending :: "browser \<Rightarrow> bool" where
  "one_pending b \<longleftrightarrow>
     0 < next_timer b \<and>
     (case timers b of
        [] \<Rightarrow> True
      | [t] \<Rightarrow> resetTimeout b = Some (fst t) \<and> 0 < fst t
      | _ \<Rightarrow> False)"

text \<open>
  The browsers the handler can be in: it starts with no reset callback pending; then its
  methods run, pending callbacks start (leaving the pending list) and run
  \<open>resetRateLimit\<close>, the clock is read (as by a method that then throws), and other code
  or the user changes the storage.
\<close>

inductive reachable :: "config \<Rightarrow> browser \<Rightarrow> bool" for cfg :: config where
  loaded: "timers b = [] \<Longrightarrow> resetTimeout b = None \<Longrightarrow> 0 < next_timer b \<Longrightarrow> reachable cfg b"
| checked: "reachable cfg b \<Longrightarrow> checkAndUpdateRateLimitDisplay cfg b = Inr b' \<Longrightarrow> reachable cfg b'"
| asked: "reachable cfg b \<Longrightarrow> canSubmit cfg b = Inr (answer, b') \<Longrightarrow> reachable cfg b'"
| recorded: "reachable cfg b \<Longrightarrow> recordSubmission cfg b = Inr b' \<Longrightarrow> reachable cfg b'"
| scheduled: "reachable cfg b \<Longrightarrow> scheduleRateLimitReset cfg b resetTime = Inr b' \<Longrightarrow> reachable cfg b'"
| reset: "reachable cfg b \<Longrightarrow> resetRateLimit cfg b = Inr b' \<Longrightarrow> reachable cfg b'"
| fired: "reachable cfg b \<Longrightarrow> fire_timer cfg b i = Inr b' \<Longrightarrow> reachable cfg b'"
| started: "reachable cfg b \<Longrightarrow> reachable cfg (b\<lparr>timers := filter (\<lambda>t. fst t \<noteq> i) (timers b)\<rparr>)"
| ticked: "reachable cfg b \<Longrightarrow> reachable cfg (tick b)"
| outside: "reachable cfg b \<Longrightarrow>
     reachable cfg (b\<lparr>items := its, access_denied := denied, quota_full := exhausted\<rparr>)"

code_pred reachable .

text \<open>A policy of one attempt per hour, and a browser whose log holds one entry.\<close>

definition one_per_hour :: rate_limit where
  "one_per_hour =
     \<lparr>MAX_ATTEMPTS_PER_HOUR = 1, ATTEMPT_WINDOW_HOURS = 1, STORAGE_KEY = ''attempts'',
      BLOCK_MESSAGE = ''blocked''\<rparr>"

definition browser_at :: "int \<Rightarrow> stored_text option \<Rightarrow> browser" where
  "browser_at now txt =
     \<lparr>items = (\<lambda>k. if k = ''attempts'' then txt else None),
      access_denied = False, quota_full = False,
      clock = (\<lambda>k. now + int k), reads = 0,
      timers = [], next_timer = 1, resetTimeout = None,
      display = None, submit_disabled = False\<rparr>"

text \<open>A browser that refuses every access to \<open>localStorage\<close>.\<close>

definition refusing_browser :: browser where
  "refusing_browser = (browser_at 0 None)\<lparr>access_denied := True\<rparr>"

text \<open>
  The browsers of the examples: an attempt exactly one hour old; an attempt two hours old;
  an attempt five milliseconds younger than one hour; and both an attempt exactly one hour
  old and one five milliseconds younger.
\<close>

definition hour_old :: browser where
  "hour_old = browser_at 3600000 (Some (Attempts_text [0]))"

definition two_hours_old :: browser where
  "two_hours_old = browser_at 7200000 (Some (Attempts_text [0]))"

definition nearly_hour_old :: browser where
  "nearly_hour_old = browser_at 3600000 (Some (Attempts_text [5]))"

definition hour_old_and_younger :: browser where
  "hour_old_and_younger = browser_at 3600000 (Some (Attempts_text [0, 5]))"

section \<open>The translation resolver of \<open>src/i18n.js\<close>\<close>

subsection \<open>Values and property access\<close>

text \<open>
  The values a translation table and the parameters of \<open>t\<close> are made of: what
  \<open>response.json()\<close> can deliver, \<open>undefined\<close>, and \<open>Native\<close> for a built-in function of
  the runtime, named by its name. A number is an integer that a JavaScript number holds
  exactly. A character of a string is one code unit. An object is the list of its own
  properties; the first pair for a key is the property.
\<close>

datatype js_value =
    Undefined
  | Null
  | Boolean bool
  | Number int
  | String string
  | Array "js_value list"
  | Object "(string \<times> js_value) list"
  | Native string

text \<open>
  How a lookup can end without a value: the runtime throws (a getter may), or the value
  looked into is one whose properties this theory does not describe.
\<close>

datatype stop = Thrown js_error | Beyond_model

text \<open>
  What the JavaScript runtime adds and the repository does not define: what an object
  inherits under a name (\<open>undefined\<close> when nothing); the properties of the other values
  that are not elements of an array; and the conversion of a value that is not a string
  to text. The operations below take the runtime as a parameter.
\<close>

record runtime =
  object_inherits :: "string \<Rightarrow> js_value"
  other_member :: "js_value \<Rightarrow> string \<Rightarrow> stop + js_value"
  text_of :: "js_value \<Rightarrow> string"

fun truthy :: "js_value \<Rightarrow> bool" where
  "truthy Undefined = False"
| "truthy Null = False"
| "truthy (Boolean b) = b"
| "truthy (Number n) = (n \<noteq> 0)"
| "truthy (String s) = (s \<noteq> [])"
| "truthy (Array xs) = True"
| "truthy (Object kvs) = True"
| "truthy (Native n) = True"

text \<open>\<open>String(v)\<close>, as \<open>replace\<close> applies it to what the callback returns.\<close>

definition ToString :: "runtime \<Rightarrow> js_value \<Rightarrow> string" where
  "ToString rt v = (case v of String s \<Rightarrow> s | _ \<Rightarrow> text_of rt v)"

text \<open>The decimal name of an array index.\<close>

fun decimal :: "nat \<Rightarrow> string" where
  "decimal n =
     (if n < 10 then [''0123456789'' ! n]
      else decimal (n div 10) @ [''0123456789'' ! (n mod 10)])"

text \<open>\<open>o[k]\<close> for an object \<open>o\<close> with the own properties \<open>kvs\<close>.\<close>

definition object_member :: "runtime \<Rightarrow> (string \<times> js_value) list \<Rightarrow> string \<Rightarrow> js_value" where
  "object_member rt kvs k = (case map_of kvs k of Some x \<Rightarrow> x | None \<Rightarrow> object_inherits rt k)"

text \<open>\<open>v[k]\<close> for a value that is neither \<open>null\<close> nor \<open>undefined\<close>.\<close>

definition member :: "runtime \<Rightarrow> js_value \<Rightarrow> string \<Rightarrow> stop + js_value" where
  "member rt v k =
     (case v of
        Object kvs \<Rightarrow> Inr (object_member rt kvs k)
      | Array xs \<Rightarrow>
          (case map_of (zip (map decimal [0..<length xs]) xs) k of
             Some x \<Rightarrow> Inr x
           | None \<Rightarrow> other_member rt v k)
      | _ \<Rightarrow> other_member rt v k)"

text \<open>\<open>v?.[k]\<close>\<close>

definition optional_member :: "runtime \<Rightarrow> js_value \<Rightarrow> string \<Rightarrow> stop + js_value" where
  "optional_member rt v k =
     (case v of
        Undefined \<Rightarrow> Inr Undefined
      | Null \<Rightarrow> Inr Undefined
      | _ \<Rightarrow> member rt v k)"

text \<open>The loop \<open>for (const k of keys) value = value?.[k]\<close>, from the value it starts with.\<close>

fun walk :: "runtime \<Rightarrow> js_value \<Rightarrow> string list \<Rightarrow> stop + js_value" where
  "walk rt value [] = Inr value"
| "walk rt value (k # keys) =
     (case optional_member rt value k of
        Inl e \<Rightarrow> Inl e
      | Inr value' \<Rightarrow> walk rt value' keys)"

subsection \<open>Splitting and replacing\<close>

text \<open>\<open>key.split('.')\<close>: the pieces between the dots; the empty string gives one empty piece.\<close>

fun split_dot :: "string \<Rightarrow> string list" where
  "split_dot [] = [[]]"
| "split_dot (c # cs) =
     (if c = CHR ''.'' then [] # split_dot cs
      else (case split_dot cs of
              [] \<Rightarrow> [[c]]
            | w # ws \<Rightarrow> (c # w) # ws))"

text \<open>The class \<open>\w\<close> of a regular expression without the unicode flag.\<close>

definition word_char :: "char \<Rightarrow> bool" where
  "word_char c \<longleftrightarrow>
     c \<in> set ''abcdefghijklmnopqrstuvwxyzABCDEFGHIJKLMNOPQRSTUVWXYZ0123456789_''"

text \<open>
  One attempt of the expression \<open>\{\{(\w+)\}\}\<close> at the start of a text: the captured name
  and the text after the match. \<open>\w+\<close> is greedy, and giving back characters cannot
  help, since a word character is not a closing brace.
\<close>

definition match_placeholder :: "string \<Rightarrow> (string \<times> string) option" where
  "match_placeholder s =
     (if take 2 s = ''{{''
      then (let name = takeWhile word_char (drop 2 s);
                rest = dropWhile word_char (drop 2 s)
            in if name \<noteq> [] \<and> take 2 rest = ''}}'' then Some (name, drop 2 rest) else None)
      else None)"

text \<open>
  \<open>value.replace(/\{\{(\w+)\}\}/g, callback)\<close>: the matches are found from left to right,
  each search starting where the last match ended; a match is replaced by what the callback
  gives for it, and the replacement is not searched again.
\<close>

function replace_placeholders :: "(string \<Rightarrow> string \<Rightarrow> string) \<Rightarrow> string \<Rightarrow> string" where
  "replace_placeholders callback s =
     (case s of
        [] \<Rightarrow> []
      | c # cs \<Rightarrow>
          (case match_placeholder s of
             Some (name, rest) \<Rightarrow>
               callback (''{{'' @ name @ ''}}'') name @ replace_placeholders callback rest
           | None \<Rightarrow> c # replace_placeholders callback cs))"
  by pat_completeness auto

termination
proof (relation "measure (\<lambda>(callback, s). length s)", goal_cases)
  case 1
  show ?case by simp
next
  case (2 callback s c cs)
  then show ?case by simp
next
  case (3 callback s c cs found name rest)
  then have "rest = drop 2 (dropWhile word_char (drop 2 s))"
    by (auto simp: match_placeholder_def Let_def split: if_splits)
  moreover have "length (dropWhile word_char (drop 2 s)) \<le> length (drop 2 s)"
    by (rule length_dropWhile_le)
  ultimately have "length rest < length s"
    using 3 by simp
  then show ?case by simp
qed

subsection \<open>\<open>t\<close>\<close>

text \<open>
  The callback of \<open>t\<close>: \<open>(match, param) => params[param] || match\<close>. The parameters are an
  object (\<open>{}\<close> when the caller gives none); \<open>table\<close> is the field \<open>this.translations\<close>.
\<close>

definition param_or_match :: "runtime \<Rightarrow> (string \<times> js_value) list \<Rightarrow> string \<Rightarrow> string \<Rightarrow> string" where
  "param_or_match rt params match param =
     (let p = object_member rt params param
      in if truthy p then ToString rt p else match)"

definition t :: "runtime \<Rightarrow> js_value \<Rightarrow> string \<Rightarrow> (string \<times> js_value) list \<Rightarrow> stop + js_value" where
  "t rt table key params =
     (let keys = split_dot key
      in (case walk rt table keys of
            Inl e \<Rightarrow> Inl e
          | Inr value \<Rightarrow>
              (case value of
                 String s \<Rightarrow> Inr (String (replace_placeholders (param_or_match rt params) s))
               | _ \<Rightarrow> Inr (if truthy value then value else String key))))"

subsection \<open>Loading and switching\<close>

text \<open>
  What the resolver sees of the outside: the answer to \<open>fetch('translations/' + lang +
  '.json')\<close> followed by \<open>response.json()\<close> (\<open>None\<close> when either rejects), whether
  \<open>localStorage\<close> throws, and whether the page has every element the update methods write
  to (they throw a \<open>TypeError\<close> otherwise).
\<close>

record web =
  serve :: "string \<Rightarrow> js_value option"
  storage_throws :: bool
  page_complete :: bool

text \<open>
  The resolver and what it leaves behind: its two fields, the stored language choice, the
  \<open>lang\<close> query parameter, the requests made, the language and table last written to the
  page, and the \<open>languageChanged\<close> events dispatched.
\<close>

record i18n =
  currentLang :: string
  translations_table :: js_value
  saved_language :: "string option"
  url_lang :: "string option"
  fetched :: "string list"
  rendered :: "(string \<times> js_value) option"
  events :: "string list"

function loadTranslations :: "web \<Rightarrow> string \<Rightarrow> i18n \<Rightarrow> i18n" where
  "loadTranslations w lang st =
     (let st1 = st\<lparr>fetched := fetched st @ [lang]\<rparr>
      in (case serve w lang of
            Some table \<Rightarrow> st1\<lparr>translations_table := table\<rparr>
          | None \<Rightarrow>
              (if lang \<noteq> ''en'' then loadTranslations w ''en'' st1 else st1)))"
  by pat_completeness auto

termination
  by (relation "measure (\<lambda>(w, lang, st). if lang = ''en'' then 0 else 1)") auto

text \<open>
  \<open>setLanguage\<close>: the state it leaves, and the exception it ends with if there is one
  (after an exception the statements that follow are not run). The calls are taken one
  after the other: a call is complete before the next one starts.
\<close>

definition setLanguage :: "web \<Rightarrow> string \<Rightarrow> i18n \<Rightarrow> js_error option \<times> i18n" where
  "setLanguage w lang st =
     (if lang = currentLang st then (None, st)
      else (let st1 = st\<lparr>currentLang := lang\<rparr>
            in if storage_throws w then (Some SecurityError, st1)
               else (let st2 = st1\<lparr>saved_language := Some lang\<rparr>;
                         st3 = loadTranslations w lang st2
                     in if \<not> page_complete w then (Some TypeError, st3)
                        else (let st4 = st3\<lparr>rendered := Some (currentLang st3, translations_table st3)\<rparr>;
                                  st5 = st4\<lparr>url_lang := Some lang\<rparr>;
                                  st6 = st5\<lparr>events := events st5 @ [lang]\<rparr>
                              in (None, st6)))))"

subsection \<open>Detecting the language\<close>

text \<open>\<open>toLowerCase\<close> on the letters A to Z; other characters are left as they are.\<close>

definition toLowerCase :: "string \<Rightarrow> string" where
  "toLowerCase s =
     map (\<lambda>c. case map_of (zip ''ABCDEFGHIJKLMNOPQRSTUVWXYZ'' ''abcdefghijklmnopqrstuvwxyz'') c of
                 Some l \<Rightarrow> l
               | None \<Rightarrow> c) s"

definition startsWith :: "string \<Rightarrow> string \<Rightarrow> bool" where
  "startsWith s p \<longleftrightarrow> take (length p) s = p"

fun includes_text :: "string \<Rightarrow> string \<Rightarrow> bool" where
  "includes_text [] p = (p = [])"
| "includes_text (c # cs) p = (startsWith (c # cs) p \<or> includes_text cs p)"

text \<open>The Arabic name of the Arabic language, in UTF-8.\<close>

definition al_arabiyya :: string where
  "al_arabiyya =
     [CHR 0xD8, CHR 0xA7, CHR 0xD9, CHR 0x84, CHR 0xD8, CHR 0xB9, CHR 0xD8, CHR 0xB1,
      CHR 0xD8, CHR 0xA8, CHR 0xD9, CHR 0x8A, CHR 0xD8, CHR 0xA9]"

text \<open>\<open>navigator.language\<close> and \<open>navigator.userLanguage\<close>, when they are defined.\<close>

record navigator =
  language :: "string option"
  userLanguage :: "string option"

text \<open>\<open>a || b\<close> on strings that may be undefined: the first that is not empty.\<close>

definition or_else :: "string option \<Rightarrow> string \<Rightarrow> string" where
  "or_else a b = (case a of None \<Rightarrow> b | Some s \<Rightarrow> (if s = [] then b else s))"

text \<open>
  \<open>detectLanguage\<close>. \<open>urlLang\<close> is what \<open>urlParams.get('lang')\<close> returns and \<open>saved\<close> what
  \<open>localStorage.getItem('tawazn-language')\<close> does, an exception when storage refuses
  access; nothing catches it.
\<close>

definition detectLanguage :: "string option \<Rightarrow> js_error + string option \<Rightarrow> navigator \<Rightarrow> js_error + string" where
  "detectLanguage urlLang saved nav =
     (if (case urlLang of None \<Rightarrow> False | Some l \<Rightarrow> l \<noteq> [] \<and> l \<in> set [''en'', ''id'', ''ar''])
      then Inr (the urlLang)
      else (case saved of
              Inl e \<Rightarrow> Inl e
            | Inr sv \<Rightarrow>
                (if (case sv of None \<Rightarrow> False | Some l \<Rightarrow> l \<noteq> [] \<and> l \<in> set [''en'', ''id'', ''ar''])
                 then Inr (the sv)
                 else (let browserLang = or_else (language nav) (or_else (userLanguage nav) []);
                           langLower = toLowerCase browserLang
                       in if startsWith langLower ''id'' \<or> includes_text langLower ''indonesia'' \<or>
                             includes_text langLower ''bahasa''
                          then Inr ''id''
                          else if startsWith langLower ''ar'' \<or> includes_text langLower ''arabic'' \<or>
                                  includes_text langLower al_arabiyya
                          then Inr ''ar''
                          else (let primaryLang =
                                      toLowerCase (takeWhile (\<lambda>c. c \<noteq> CHR ''-'') browserLang)
                                in if primaryLang = ''id'' then Inr ''id''
                                   else if primaryLang = ''ar'' then Inr ''ar''
                                   else Inr ''id'')))))"

subsection \<open>What the specification talks about\<close>


text \<open>
  The precedence of the specification: a list of rules, each of which names a language or
  does not apply; the first that applies decides, and the default decides when none does.
\<close>

fun first_applicable :: "string option list \<Rightarrow> string \<Rightarrow> string" where
  "first_applicable [] fallback = fallback"
| "first_applicable (None # rules) fallback = first_applicable rules fallback"
| "first_applicable (Some l # rules) fallback = l"

definition supported :: "string \<Rightarrow> bool" where
  "supported l \<longleftrightarrow> l = ''en'' \<or> l = ''id'' \<or> l = ''ar''"

text \<open>Rules (1) and (2): a value that names a supported language.\<close>

definition names_supported :: "string option \<Rightarrow> string option" where
  "names_supported v = (case v of None \<Rightarrow> None | Some l \<Rightarrow> (if supported l then Some l else None))"

text \<open>Rule (3): what the reported locale, in lower case, looks like.\<close>

definition looks_indonesian :: "string \<Rightarrow> bool" where
  "looks_indonesian l \<longleftrightarrow>
     startsWith l ''id'' \<or> includes_text l ''indonesia'' \<or> includes_text l ''bahasa''"

definition looks_arabic :: "string \<Rightarrow> bool" where
  "looks_arabic l \<longleftrightarrow>
     startsWith l ''ar'' \<or> includes_text l ''arabic'' \<or> includes_text l al_arabiyya"

definition reported_locale :: "navigator \<Rightarrow> string" where
  "reported_locale nav = or_else (language nav) (or_else (userLanguage nav) [])"

definition locale_rule :: "navigator \<Rightarrow> string option" where
  "locale_rule nav =
     (let l = toLowerCase (reported_locale nav)
      in if looks_indonesian l then Some ''id''
         else if looks_arabic l then Some ''ar''
         else None)"

text \<open>Rule (4).\<close>

definition default_language :: string where
  "default_language = ''id''"

text \<open>
  The runtime of a browser, as far as it is the same in every engine. An object inherits
  the members of \<open>Object.prototype\<close>: its methods, the constructor \<open>Object\<close>, and under
  \<open>__proto__\<close> that prototype itself, which is an object with these members as own
  properties. A string has a \<open>length\<close> and its characters under their indices, and an array
  has a \<open>length\<close>. What else a string, an array, a number, a boolean or a built-in function
  has under a name depends on the edition of the language the engine implements and is
  not described. A number is printed in decimal, an array as its elements separated by
  commas (nothing for \<open>null\<close> and \<open>undefined\<close>), an object as \<open>[object Object]\<close>, and a
  built-in function the way V8 and JavaScriptCore print it.
\<close>

definition object_prototype_methods :: "string list" where
  "object_prototype_methods =
     [''__defineGetter__'', ''__defineSetter__'', ''hasOwnProperty'', ''__lookupGetter__'',
      ''__lookupSetter__'', ''isPrototypeOf'', ''propertyIsEnumerable'', ''toString'',
      ''valueOf'', ''toLocaleString'']"

definition object_prototype :: js_value where
  "object_prototype =
     Object ((''constructor'', Native ''Object'') # (''__proto__'', Null) #
             map (\<lambda>n. (n, Native n)) object_prototype_methods)"

definition js_object_inherits :: "string \<Rightarrow> js_value" where
  "js_object_inherits k =
     (if k = ''__proto__'' then object_prototype
      else if k = ''constructor'' then Native ''Object''
      else if k \<in> set object_prototype_methods then Native k
      else Undefined)"

definition js_other_member :: "js_value \<Rightarrow> string \<Rightarrow> stop + js_value" where
  "js_other_member v k =
     (case v of
        String s \<Rightarrow>
          (if k = ''length'' then Inr (Number (int (length s)))
           else (case map_of (zip (map decimal [0..<length s]) s) k of
                   Some c \<Rightarrow> Inr (String [c])
                 | None \<Rightarrow> Inl Beyond_model))
      | Array xs \<Rightarrow> (if k = ''length'' then Inr (Number (int (length xs))) else Inl Beyond_model)
      | _ \<Rightarrow> Inl Beyond_model)"

fun join_commas :: "string list \<Rightarrow> string" where
  "join_commas [] = []"
| "join_commas [x] = x"
| "join_commas (x # y # zs) = x @ '','' @ join_commas (y # zs)"

fun js_text :: "js_value \<Rightarrow> string" where
  "js_text Undefined = ''undefined''"
| "js_text Null = ''null''"
| "js_text (Boolean b) = (if b then ''true'' else ''false'')"
| "js_text (Number n) = (if n < 0 then ''-'' @ decimal (nat (- n)) else decimal (nat n))"
| "js_text (String s) = s"
| "js_text (Array xs) =
     join_commas (map (\<lambda>v. if v = Null \<or> v = Undefined then [] else js_text v) xs)"
| "js_text (Object kvs) = ''[object Object]''"
| "js_text (Native n) = ''function '' @ n @ ''() { [native code] }''"

definition js_runtime :: runtime where
  "js_runtime =
     \<lparr>object_inherits = js_object_inherits, other_member = js_other_member, text_of = js_text\<rparr>"

text \<open>A resolver just constructed, and a server that has the English table only.\<close>

definition fresh_i18n :: "string \<Rightarrow> i18n" where
  "fresh_i18n lang =
     \<lparr>currentLang = lang, translations_table = Object [], saved_language = None,
      url_lang = None, fetched = [], rendered = None, events = []\<rparr>"

definition english_only :: web where
  "english_only =
     \<lparr>serve = (\<lambda>lang. if lang = ''en'' then Some (Object [(''title'', String ''Hello'')]) else None),
      storage_throws = False, page_complete = True\<rparr>"

definition offline :: web where
  "offline = \<lparr>serve = (\<lambda>lang. None), storage_throws = False, page_complete = True\<rparr>"

text \<open>The value the walk of \<open>t\<close> along the key path ends in, if it ends in one.\<close>

definition resolved :: "runtime \<Rightarrow> js_value \<Rightarrow> string \<Rightarrow> stop + js_value" where
  "resolved rt table key = walk rt table (split_dot key)"

text \<open>
  A placeholder name, as the specification writes it in \<open>{{name}}\<close>: a non-empty run of
  word characters. A text has a placeholder when \<open>{{name}}\<close> occurs in it for such a name.
\<close>

definition is_name :: "string \<Rightarrow> bool" where
  "is_name name \<longleftrightarrow> name \<noteq> [] \<and> list_all word_char name"


text \<open>The table of the examples.\<close>

definition greeting_table :: js_value where
  "greeting_table =
     Object [(''a'', Object [(''b'', Object [(''c'', String ''hi {{name}}'')])]),
             (''dear'', String ''Dear {{first-name}}''),
             (''offer'', String ''50% {off''),
             (''cards'', Array [Object [(''title'', String ''One'')]])]"

section \<open>Properties of the submission gate\<close>

declare checkAndUpdateRateLimitDisplay.simps [simp del]
  scheduleRateLimitReset.simps [simp del] resetRateLimit.simps [simp del]

lemma Math_min_Min: "Math_min x xs = Min (set (x # xs))"
  by (simp only: Math_min_def Min.set_eq_fold)

text \<open>What the handler reads is the readable log, unless what is stored is not an array.\<close>

lemma read_is:
  "getSubmissionAttempts (Some rl) b =
     (if stored_not_array rl b then Not_an_array else Attempts (readable_log rl b))"
  by (auto simp: getSubmissionAttempts_def getItem_def persisted_log_def readable_log_def
      stored_not_array_def JSON_parse_def split: option.splits stored_text.splits)

lemma code_filter: "(\<lambda>timestamp. timestamp > now - window_ms rl) = after_window_start rl now"
  by (auto simp: after_window_start_def)

lemma check_unfold:
  "checkAndUpdateRateLimitDisplay (Some rl) b =
     (if stored_not_array rl b then Inl TypeError
      else if counted rl b \<noteq> [] \<and> remaining_now rl b = 0
      then scheduleRateLimitReset (Some rl) (shown rl b) (reset_instant rl b)
      else Inr (shown rl b))"
proof (cases "stored_not_array rl b")
  case True
  then show ?thesis
    by (subst checkAndUpdateRateLimitDisplay.simps) (simp add: read_is filter_method_def)
next
  case False
  then have f: "filter_method (getSubmissionAttempts (Some rl) b)
      (\<lambda>timestamp. timestamp > Date_now b - window_ms rl) = Inr (counted rl b)"
    by (simp add: read_is filter_method_def counted_def code_filter)
  show ?thesis
  proof (cases "counted rl b")
    case Nil
    have "checkAndUpdateRateLimitDisplay (Some rl) b = Inr (shown rl b)"
      unfolding shown_def remaining_now_def
      by (subst checkAndUpdateRateLimitDisplay.simps)
        (simp only: Let_def f Nil option.case list.case sum.case)
    with Nil False show ?thesis by simp
  next
    case (Cons x xs)
    have m: "Math_min x xs + window_ms rl = reset_instant rl b"
      by (simp only: Math_min_Min reset_instant_def Cons)
    have "checkAndUpdateRateLimitDisplay (Some rl) b =
        (if remaining_now rl b = 0
         then scheduleRateLimitReset (Some rl) (shown rl b) (Math_min x xs + window_ms rl)
         else Inr (shown rl b))"
      unfolding shown_def remaining_now_def
      by (subst checkAndUpdateRateLimitDisplay.simps)
        (simp only: Let_def f Cons option.case list.case sum.case)
    with Cons m False show ?thesis by simp
  qed
qed

lemma schedule_unfold:
  "scheduleRateLimitReset cfg b resetTime =
     (if resetTime \<le> Date_now b then resetRateLimit cfg (tick b)
      else Inr ((clear_existing (tick b))
             \<lparr>timers := timers (clear_existing (tick b)) @ [(next_timer b, resetTime - Date_now b)],
              next_timer := Suc (next_timer b),
              resetTimeout := Some (next_timer b)\<rparr>))"
  by (auto simp: scheduleRateLimitReset.simps Let_def setTimeout_def clear_existing_def
      clearTimeout_def tick_def max_def split: option.splits)

lemma reset_unfold:
  "resetRateLimit (Some rl) b =
     (if access_denied b then Inl SecurityError
      else (case checkAndUpdateRateLimitDisplay (Some rl) (b\<lparr>items := (items b)(STORAGE_KEY rl := None)\<rparr>) of
              Inl e \<Rightarrow> Inl e
            | Inr b2 \<Rightarrow> Inr (b2\<lparr>submit_disabled := False\<rparr>)))"
  by (simp add: resetRateLimit.simps removeItem_def)

text \<open>After the log has been removed, nothing counts.\<close>

lemma counted_removed:
  "counted rl (b\<lparr>items := (items b)(STORAGE_KEY rl := None)\<rparr>) = []"
  "\<not> stored_not_array rl (b\<lparr>items := (items b)(STORAGE_KEY rl := None)\<rparr>)"
  by (simp_all add: counted_def readable_log_def persisted_log_def stored_not_array_def)

lemma reset_result:
  "resetRateLimit (Some rl) b =
     (if access_denied b then Inl SecurityError
      else Inr ((shown rl (b\<lparr>items := (items b)(STORAGE_KEY rl := None)\<rparr>))\<lparr>submit_disabled := False\<rparr>))"
  by (simp add: reset_unfold check_unfold counted_removed)

lemma one_pending_length: "one_pending b \<Longrightarrow> length (timers b) \<le> 1"
  by (auto simp: one_pending_def split: list.splits)

lemma one_pending_same:
  "timers b' = timers b \<Longrightarrow> next_timer b' = next_timer b \<Longrightarrow> resetTimeout b' = resetTimeout b
   \<Longrightarrow> one_pending b' = one_pending b"
  by (auto simp: one_pending_def split: list.splits)

lemma one_pending_shown: "one_pending (shown rl b) = one_pending b"
  by (rule one_pending_same) (simp_all add: shown_def updateRateLimitDisplay_def tick_def)

lemma one_pending_tick: "one_pending (tick b) = one_pending b"
  by (rule one_pending_same) (simp_all add: tick_def)

lemma timers_clear_existing:
  "one_pending b \<Longrightarrow> timers (clear_existing b) = []"
  by (auto simp: one_pending_def clear_existing_def clearTimeout_def split: list.splits option.splits)

lemma counted_needs_access: "counted rl b \<noteq> [] \<Longrightarrow> \<not> access_denied b"
  by (auto simp: counted_def readable_log_def)

lemma check_returns:
  assumes "\<not> stored_not_array rl b"
  shows "\<exists>b'. checkAndUpdateRateLimitDisplay (Some rl) b = Inr b'"
proof (cases "counted rl b \<noteq> [] \<and> remaining_now rl b = 0")
  case True
  then have "\<not> access_denied b" using counted_needs_access by blast
  then have "\<not> access_denied (tick (shown rl b))"
    by (simp add: shown_def updateRateLimitDisplay_def tick_def)
  then show ?thesis
    using True assms by (simp add: check_unfold schedule_unfold reset_result)
next
  case False
  then show ?thesis using assms by (auto simp add: check_unfold)
qed

lemma check_throws:
  "stored_not_array rl b \<Longrightarrow> checkAndUpdateRateLimitDisplay (Some rl) b = Inl TypeError"
  by (simp add: check_unfold)

lemma schedule_keeps_one_pending:
  assumes "one_pending b" and "scheduleRateLimitReset (Some rl) b resetTime = Inr b'"
  shows "one_pending b'"
proof (cases "resetTime \<le> Date_now b")
  case True
  with assms(2) have "\<not> access_denied (tick b)"
    and b': "b' = (shown rl ((tick b)\<lparr>items := (items (tick b))(STORAGE_KEY rl := None)\<rparr>))\<lparr>submit_disabled := False\<rparr>"
    by (auto simp: schedule_unfold reset_result split: if_splits)
  have "one_pending b' = one_pending b"
    unfolding b' by (rule one_pending_same)
      (simp_all add: shown_def updateRateLimitDisplay_def tick_def)
  with assms(1) show ?thesis by simp
next
  case False
  have "timers (clear_existing (tick b)) = []"
    using assms(1) by (simp add: timers_clear_existing one_pending_tick)
  with False assms show ?thesis
    by (auto simp: schedule_unfold one_pending_def)
qed

lemma check_keeps_one_pending:
  assumes "one_pending b" and "checkAndUpdateRateLimitDisplay cfg b = Inr b'"
  shows "one_pending b'"
proof (cases cfg)
  case None
  with assms show ?thesis by (simp add: checkAndUpdateRateLimitDisplay.simps)
next
  case (Some rl)
  from assms(2) Some have ok: "\<not> stored_not_array rl b"
    by (auto simp: check_unfold split: if_splits)
  show ?thesis
  proof (cases "counted rl b \<noteq> [] \<and> remaining_now rl b = 0")
    case True
    with assms(2) Some ok
    have "scheduleRateLimitReset (Some rl) (shown rl b) (reset_instant rl b) = Inr b'"
      by (simp add: check_unfold)
    then show ?thesis
      using assms(1) schedule_keeps_one_pending one_pending_shown by blast
  next
    case False
    with assms(2) Some ok have "b' = shown rl b"
      by (auto simp: check_unfold)
    with assms(1) show ?thesis by (simp add: one_pending_shown)
  qed
qed

lemma reset_keeps_one_pending:
  assumes "one_pending b" and "resetRateLimit cfg b = Inr b'"
  shows "one_pending b'"
proof (cases cfg)
  case None
  with assms show ?thesis by (simp add: resetRateLimit.simps)
next
  case (Some rl)
  with assms(2)
  have b': "b' = (shown rl (b\<lparr>items := (items b)(STORAGE_KEY rl := None)\<rparr>))\<lparr>submit_disabled := False\<rparr>"
    by (auto simp: reset_result split: if_splits)
  have "one_pending b' = one_pending b"
    unfolding b' by (rule one_pending_same)
      (simp_all add: shown_def updateRateLimitDisplay_def tick_def)
  with assms(1) show ?thesis by simp
qed

lemma save_same_timers:
  "timers (saveSubmissionAttempts cfg b xs) = timers b \<and>
   next_timer (saveSubmissionAttempts cfg b xs) = next_timer b \<and>
   resetTimeout (saveSubmissionAttempts cfg b xs) = resetTimeout b"
  by (auto simp: saveSubmissionAttempts_def setItem_def split: option.splits)

lemma record_keeps_one_pending:
  assumes "one_pending b" and "recordSubmission cfg b = Inr b'"
  shows "one_pending b'"
proof (cases cfg)
  case None
  with assms show ?thesis by (simp add: recordSubmission_def)
next
  case (Some rl)
  with assms(2) obtain xs where
    "checkAndUpdateRateLimitDisplay cfg (saveSubmissionAttempts cfg (tick (tick b)) xs) = Inr b'"
    by (auto simp: recordSubmission_def Let_def split: sum.splits)
  moreover have "one_pending (saveSubmissionAttempts cfg (tick (tick b)) xs)"
    using assms(1) one_pending_same [OF conjunct1 [OF save_same_timers]
        conjunct1 [OF conjunct2 [OF save_same_timers]] conjunct2 [OF conjunct2 [OF save_same_timers]]]
    by (simp add: one_pending_tick)
  ultimately show ?thesis using check_keeps_one_pending by blast
qed

lemma fire_keeps_one_pending:
  assumes "one_pending b" and "fire_timer cfg b i = Inr b'"
  shows "one_pending b'"
proof (cases "i \<in> fst ` set (timers b)")
  case True
  with assms(1) have "one_pending (b\<lparr>timers := filter (\<lambda>t. fst t \<noteq> i) (timers b)\<rparr>)"
    by (auto simp: one_pending_def split: list.splits)
  with True assms(2) show ?thesis
    using reset_keeps_one_pending by (simp add: fire_timer_def)
next
  case False
  with assms show ?thesis by (simp add: fire_timer_def)
qed

lemma reachable_one_pending: "reachable cfg b \<Longrightarrow> one_pending b"
proof (induction rule: reachable.induct)
  case (loaded b)
  then show ?case by (simp add: one_pending_def)
next
  case (checked b b')
  then show ?case using check_keeps_one_pending by blast
next
  case (asked b answer b')
  then have "b' = b \<or> b' = tick b"
    by (auto simp: canSubmit_def Let_def split: option.splits sum.splits)
  with asked show ?case by (auto simp: one_pending_tick)
next
  case (recorded b b')
  then show ?case using record_keeps_one_pending by blast
next
  case (scheduled b resetTime b')
  show ?case
  proof (cases cfg)
    case None
    have "one_pending (tick b)" using scheduled.IH by (simp add: one_pending_tick)
    then have "timers (clear_existing (tick b)) = []" by (rule timers_clear_existing)
    with scheduled None \<open>one_pending (tick b)\<close> show ?thesis
      by (auto simp: schedule_unfold resetRateLimit.simps one_pending_def split: if_splits)
  next
    case (Some rl)
    with scheduled show ?thesis using schedule_keeps_one_pending by blast
  qed
next
  case (reset b b')
  then show ?case using reset_keeps_one_pending by blast
next
  case (fired b i b')
  then show ?case using fire_keeps_one_pending by blast
next
  case (started b i)
  then show ?case by (auto simp: one_pending_def split: list.splits)
next
  case (ticked b)
  then show ?case by (simp add: one_pending_tick)
next
  case (outside b)
  have "one_pending (b\<lparr>items := i, access_denied := d, quota_full := q\<rparr>) = one_pending b"
    for i d q
    by (rule one_pending_same) simp_all
  with outside show ?case by simp
qed

lemma Date_now_shown: "Date_now (shown rl b) = clock b (Suc (reads b))"
  by (simp add: Date_now_def shown_def updateRateLimitDisplay_def tick_def)

lemma reset_same_timers:
  assumes "resetRateLimit cfg b = Inr b'"
  shows "timers b' = timers b"
proof (cases cfg)
  case None
  with assms show ?thesis by (simp add: resetRateLimit.simps)
next
  case (Some rl)
  with assms show ?thesis
    by (auto simp: reset_result shown_def updateRateLimitDisplay_def tick_def split: if_splits)
qed

lemma reset_clears_log:
  "resetRateLimit (Some rl) b = Inr b' \<Longrightarrow> persisted_log rl b' = []"
  by (auto simp: reset_result shown_def updateRateLimitDisplay_def tick_def persisted_log_def
      split: if_splits)

lemma schedule_late:
  "resetTime \<le> Date_now b \<Longrightarrow>
     scheduleRateLimitReset cfg b resetTime = resetRateLimit cfg (tick b)"
  by (simp add: schedule_unfold)

lemma schedule_early:
  assumes "one_pending b" and "Date_now b < resetTime"
  shows "\<exists>b'. scheduleRateLimitReset cfg b resetTime = Inr b' \<and>
           timers b' = [(next_timer b, resetTime - Date_now b)] \<and>
           resetTimeout b' = Some (next_timer b)"
proof -
  have "timers (clear_existing (tick b)) = []"
    using assms(1) by (simp add: timers_clear_existing one_pending_tick)
  with assms(2) show ?thesis by (simp add: schedule_unfold)
qed

lemma check_outcome:
  assumes "one_pending b" and ok: "\<not> stored_not_array rl b"
  shows "\<exists>b'. checkAndUpdateRateLimitDisplay (Some rl) b = Inr b' \<and>
     (if counted rl b \<noteq> [] \<and> remaining_now rl b = 0
      then (if reset_instant rl b \<le> clock b (Suc (reads b))
            then timers b' = timers b \<and> persisted_log rl b' = []
            else timers b' = [(next_timer b, reset_instant rl b - clock b (Suc (reads b)))])
      else timers b' = timers b)"
proof -
  obtain b' where b': "checkAndUpdateRateLimitDisplay (Some rl) b = Inr b'"
    using check_returns [OF ok] by blast
  have st: "timers (shown rl b) = timers b" "next_timer (shown rl b) = next_timer b"
    by (simp_all add: shown_def updateRateLimitDisplay_def tick_def)
  have op: "one_pending (shown rl b)"
    using assms by (simp add: one_pending_shown)
  show ?thesis
  proof (cases "counted rl b \<noteq> [] \<and> remaining_now rl b = 0")
    case due: True
    then have s: "scheduleRateLimitReset (Some rl) (shown rl b) (reset_instant rl b) = Inr b'"
      using b' ok by (simp add: check_unfold)
    show ?thesis
    proof (cases "reset_instant rl b \<le> clock b (Suc (reads b))")
      case True
      then have "resetRateLimit (Some rl) (tick (shown rl b)) = Inr b'"
        using s schedule_late [of "reset_instant rl b" "shown rl b" "Some rl"]
        by (simp add: Date_now_shown)
      then have "timers b' = timers b" "persisted_log rl b' = []"
        using reset_same_timers [of "Some rl" "tick (shown rl b)" b'] reset_clears_log st
        by (simp_all add: tick_def)
      with b' due True show ?thesis by simp
    next
      case False
      then have "Date_now (shown rl b) < reset_instant rl b"
        by (simp add: Date_now_shown)
      from schedule_early [OF op this, of "Some rl"] s st
      have "timers b' = [(next_timer b, reset_instant rl b - clock b (Suc (reads b)))]"
        by (auto simp: Date_now_shown)
      with b' due False show ?thesis by simp
    qed
  next
    case False
    then have "b' = shown rl b" using b' ok by (auto simp: check_unfold)
    with b' False st show ?thesis by auto
  qed
qed

text \<open>
  Claim C4, as the code has it. In every browser the handler can reach, at most one reset
  callback is pending. \<open>checkAndUpdateRateLimitDisplay\<close> throws when what is stored is not
  an array; otherwise it returns, and it touches the timers only when the remaining count
  is \<open>0\<close> and some attempt counts, an attempt counting when it is later than
  \<open>now - windowDuration\<close>; the instant it uses is the oldest such attempt plus the window.
  If that instant lies after the clock reading of \<open>scheduleRateLimitReset\<close>, exactly one
  callback is pending afterwards, the new one, with the delay up to that instant (a
  callback pending before is cancelled); otherwise the reset runs at once: the log is
  removed and no callback is added. The same holds for \<open>scheduleRateLimitReset\<close> called
  with any instant.
\<close>

theorem reset_scheduling:
  assumes "reachable (Some rl) b"
  shows "length (timers b) \<le> 1 \<and>
    (stored_not_array rl b \<longrightarrow> checkAndUpdateRateLimitDisplay (Some rl) b = Inl TypeError) \<and>
    (\<not> stored_not_array rl b \<longrightarrow>
       (\<exists>b'. checkAndUpdateRateLimitDisplay (Some rl) b = Inr b' \<and>
          (if counted rl b \<noteq> [] \<and> remaining_now rl b = 0
           then (if reset_instant rl b \<le> clock b (Suc (reads b))
                 then timers b' = timers b \<and> persisted_log rl b' = []
                 else timers b' = [(next_timer b, reset_instant rl b - clock b (Suc (reads b)))])
           else timers b' = timers b))) \<and>
    (\<forall>resetTime. resetTime \<le> Date_now b \<longrightarrow>
       scheduleRateLimitReset (Some rl) b resetTime = resetRateLimit (Some rl) (tick b) \<and>
       (\<forall>b'. resetRateLimit (Some rl) (tick b) = Inr b' \<longrightarrow> timers b' = timers b)) \<and>
    (\<forall>resetTime. Date_now b < resetTime \<longrightarrow>
       (\<exists>b'. scheduleRateLimitReset (Some rl) b resetTime = Inr b' \<and>
          timers b' = [(next_timer b, resetTime - Date_now b)] \<and>
          resetTimeout b' = Some (next_timer b)))"
proof -
  have op: "one_pending b" using assms by (rule reachable_one_pending)
  have "length (timers b) \<le> 1" using op by (rule one_pending_length)
  moreover have "stored_not_array rl b \<longrightarrow>
      checkAndUpdateRateLimitDisplay (Some rl) b = Inl TypeError"
    using check_throws by blast
  moreover have "\<not> stored_not_array rl b \<longrightarrow>
       (\<exists>b'. checkAndUpdateRateLimitDisplay (Some rl) b = Inr b' \<and>
          (if counted rl b \<noteq> [] \<and> remaining_now rl b = 0
           then (if reset_instant rl b \<le> clock b (Suc (reads b))
                 then timers b' = timers b \<and> persisted_log rl b' = []
                 else timers b' = [(next_timer b, reset_instant rl b - clock b (Suc (reads b)))])
           else timers b' = timers b))"
    using check_outcome [OF op] by blast
  moreover have "\<forall>resetTime. resetTime \<le> Date_now b \<longrightarrow>
       scheduleRateLimitReset (Some rl) b resetTime = resetRateLimit (Some rl) (tick b) \<and>
       (\<forall>b'. resetRateLimit (Some rl) (tick b) = Inr b' \<longrightarrow> timers b' = timers b)"
    using schedule_late reset_same_timers [of "Some rl" "tick b"] by (simp add: tick_def)
  moreover have "\<forall>resetTime. Date_now b < resetTime \<longrightarrow>
       (\<exists>b'. scheduleRateLimitReset (Some rl) b resetTime = Inr b' \<and>
          timers b' = [(next_timer b, resetTime - Date_now b)] \<and>
          resetTimeout b' = Some (next_timer b))"
    using schedule_early [OF op] by blast
  ultimately show ?thesis by blast
qed

text \<open>
  Witness for C4: a freshly loaded page whose log holds one attempt, made 5 ms after the
  start of the hour that ends now, under a policy of one attempt per hour. The callback is
  scheduled 4 ms ahead, since the clock has advanced by one.
\<close>

theorem reset_scheduling_witness:
  "reachable (Some one_per_hour) nearly_hour_old \<and>
   length (timers nearly_hour_old) \<le> 1 \<and>
   \<not> stored_not_array one_per_hour nearly_hour_old \<and>
   (\<exists>b'. checkAndUpdateRateLimitDisplay (Some one_per_hour) nearly_hour_old = Inr b' \<and>
      timers b' = [(1, 4)])"
proof -
  have r: "reachable (Some one_per_hour) nearly_hour_old"
    by (rule reachable.loaded) (simp_all add: nearly_hour_old_def browser_at_def)
  have ok: "\<not> stored_not_array one_per_hour nearly_hour_old"
    by (simp add: stored_not_array_def nearly_hour_old_def browser_at_def one_per_hour_def)
  have cnt: "counted one_per_hour nearly_hour_old = [5]"
    by (simp add: counted_def readable_log_def persisted_log_def after_window_start_def
        one_per_hour_def nearly_hour_old_def browser_at_def Date_now_def window_ms_def)
  have rem: "remaining_now one_per_hour nearly_hour_old = 0"
    by (simp add: remaining_now_def cnt) (simp add: one_per_hour_def)
  have inst: "reset_instant one_per_hour nearly_hour_old = 3600005"
    by (simp add: reset_instant_def cnt) (simp add: window_ms_def one_per_hour_def)
  have clk: "clock nearly_hour_old (Suc (reads nearly_hour_old)) = 3600001"
    "next_timer nearly_hour_old = 1"
    by (simp_all add: nearly_hour_old_def browser_at_def)
  show ?thesis
    using reset_scheduling [OF r] r ok by (simp add: cnt rem inst clk)
qed

text \<open>
  The claim C4 as stated, with the window \<open>[now - windowDuration, now]\<close> of the
  specification, fails when the log holds an attempt exactly one window old and a younger
  one, under a policy of one attempt per hour: the remaining count is \<open>0\<close>, the oldest
  attempt within the closed window gives an instant that is not after the current time, so
  the reset should run at once; the code does not count the old attempt and schedules a
  callback 4 ms ahead, leaving the log in storage.
\<close>

theorem reset_scheduling_closed_window_counterexample:
  "closed_window_instant one_per_hour hour_old_and_younger = Date_now hour_old_and_younger \<and>
   checkAndUpdateRateLimitDisplay (Some one_per_hour) hour_old_and_younger =
     Inr (hour_old_and_younger
           \<lparr>reads := 2, timers := [(1, 4)], next_timer := 2, resetTimeout := Some 1,
            display := Some (0, 1), submit_disabled := True\<rparr>)"
proof -
  have ok: "\<not> stored_not_array one_per_hour hour_old_and_younger"
    by (simp add: stored_not_array_def hour_old_and_younger_def browser_at_def one_per_hour_def)
  have cnt: "counted one_per_hour hour_old_and_younger = [5]"
    by (simp add: counted_def readable_log_def persisted_log_def after_window_start_def
        one_per_hour_def hour_old_and_younger_def browser_at_def Date_now_def window_ms_def)
  have rem: "remaining_now one_per_hour hour_old_and_younger = 0"
    by (simp add: remaining_now_def cnt) (simp add: one_per_hour_def)
  have inst: "reset_instant one_per_hour hour_old_and_younger = 3600005"
    by (simp add: reset_instant_def cnt) (simp add: window_ms_def one_per_hour_def)
  have closed: "closed_window_instant one_per_hour hour_old_and_younger =
      Date_now hour_old_and_younger"
    by (simp add: closed_window_instant_def readable_log_def persisted_log_def within_window_def
        one_per_hour_def hour_old_and_younger_def browser_at_def Date_now_def window_ms_def)
  have sh: "shown one_per_hour hour_old_and_younger =
      hour_old_and_younger\<lparr>reads := 1, display := Some (0, 1), submit_disabled := True\<rparr>"
    unfolding shown_def rem
    by (simp add: updateRateLimitDisplay_def tick_def hour_old_and_younger_def browser_at_def
        one_per_hour_def)
  have "checkAndUpdateRateLimitDisplay (Some one_per_hour) hour_old_and_younger =
      scheduleRateLimitReset (Some one_per_hour)
        (hour_old_and_younger\<lparr>reads := 1, display := Some (0, 1), submit_disabled := True\<rparr>)
        3600005"
    by (simp add: check_unfold ok cnt rem inst sh)
  also have "\<dots> =
     Inr (hour_old_and_younger
           \<lparr>reads := 2, timers := [(1, 4)], next_timer := 2, resetTimeout := Some 1,
            display := Some (0, 1), submit_disabled := True\<rparr>)"
    by (simp add: schedule_unfold Date_now_def tick_def clear_existing_def
        hour_old_and_younger_def browser_at_def)
  finally show ?thesis using closed by simp
qed

lemma check_items:
  assumes "checkAndUpdateRateLimitDisplay (Some rl) b = Inr b'"
  shows "items b' = items b \<or> items b' = (items b)(STORAGE_KEY rl := None)"
proof -
  from assms have ok: "\<not> stored_not_array rl b"
    by (auto simp: check_unfold split: if_splits)
  show ?thesis
  proof (cases "counted rl b \<noteq> [] \<and> remaining_now rl b = 0")
    case True
    with assms ok
    have "scheduleRateLimitReset (Some rl) (shown rl b) (reset_instant rl b) = Inr b'"
      by (simp add: check_unfold)
    then show ?thesis
      by (auto simp: schedule_unfold reset_result shown_def updateRateLimitDisplay_def tick_def
          clear_existing_def clearTimeout_def split: if_splits option.splits)
  next
    case False
    with assms ok have "b' = shown rl b" by (auto simp: check_unfold)
    then show ?thesis by (simp add: shown_def updateRateLimitDisplay_def tick_def)
  qed
qed

lemma persisted_after_check:
  assumes "checkAndUpdateRateLimitDisplay (Some rl) b = Inr b'"
  shows "persisted_log rl b' = persisted_log rl b \<or> persisted_log rl b' = []"
  using check_items [OF assms] by (auto simp: persisted_log_def)

lemma record_unfold:
  "recordSubmission (Some rl) b =
     (if stored_not_array rl b then Inl TypeError
      else checkAndUpdateRateLimitDisplay (Some rl)
             (saveSubmissionAttempts (Some rl) (tick (tick b)) (pruned rl b)))"
proof -
  have "(\<lambda>timestamp. timestamp > Date_now (tick b) - window_ms rl) =
      after_window_start rl (clock b (Suc (reads b)))"
    by (auto simp: after_window_start_def Date_now_def tick_def)
  then show ?thesis
    by (simp add: recordSubmission_def Let_def pruned_def read_is push_method_def)
qed

lemma persisted_after_save:
  assumes "\<not> access_denied b" and "\<not> quota_full b"
  shows "persisted_log rl (saveSubmissionAttempts (Some rl) b xs) = xs"
  using assms
  by (simp add: saveSubmissionAttempts_def setItem_def JSON_stringify_def persisted_log_def)

text \<open>Whatever \<open>saveSubmissionAttempts\<close> does, what is stored afterwards is an array or nothing new.\<close>

lemma save_keeps_array:
  "\<not> stored_not_array rl b \<Longrightarrow> \<not> stored_not_array rl (saveSubmissionAttempts (Some rl) b xs)"
  by (auto simp: saveSubmissionAttempts_def setItem_def JSON_stringify_def stored_not_array_def)

lemma record_returns:
  assumes "\<not> stored_not_array rl b"
  shows "\<exists>b'. recordSubmission (Some rl) b = Inr b'"
proof -
  have "\<not> stored_not_array rl (tick (tick b))"
    using assms by (auto simp: stored_not_array_def tick_def)
  then have "\<not> stored_not_array rl (saveSubmissionAttempts (Some rl) (tick (tick b)) (pruned rl b))"
    by (rule save_keeps_array)
  then show ?thesis
    using assms check_returns by (simp add: record_unfold)
qed

text \<open>
  Claim C2, as the code has it. When what is stored is an array or nothing and
  \<open>localStorage\<close> accepts the write, \<open>recordSubmission\<close> returns and the persisted log
  holds only timestamps later than \<open>now - windowDuration\<close>, \<open>now\<close> being its second clock
  reading: older entries are removed from storage. If moreover no stored timestamp lies
  after the first reading and the clock does not run backwards between the two readings,
  every persisted timestamp lies in \<open>[now - windowDuration, now]\<close>. When what is stored is
  not an array, \<open>recordSubmission\<close> throws before it writes. \<open>canSubmit\<close> writes nothing:
  when it returns, the stored items are as they were.
\<close>

theorem recordSubmission_prunes_storage:
  "(\<not> access_denied b \<and> \<not> quota_full b \<and> \<not> stored_not_array rl b \<longrightarrow>
      (\<exists>b'. recordSubmission (Some rl) b = Inr b' \<and>
         list_all (after_window_start rl (clock b (Suc (reads b)))) (persisted_log rl b') \<and>
         (list_all (\<lambda>t. t \<le> Date_now b) (persisted_log rl b) \<and>
          clock b (reads b) \<le> clock b (Suc (reads b)) \<longrightarrow>
            list_all (within_window rl (clock b (Suc (reads b)))) (persisted_log rl b')))) \<and>
   (stored_not_array rl b \<longrightarrow> recordSubmission (Some rl) b = Inl TypeError) \<and>
   (\<forall>answer b'. canSubmit cfg b = Inr (answer, b') \<longrightarrow> items b' = items b)"
proof (intro conjI impI allI)
  fix answer b'
  assume "canSubmit cfg b = Inr (answer, b')"
  then show "items b' = items b"
    by (auto simp: canSubmit_def Let_def tick_def split: option.splits sum.splits)
next
  assume "stored_not_array rl b"
  then show "recordSubmission (Some rl) b = Inl TypeError"
    by (simp add: record_unfold)
next
  assume ok: "\<not> access_denied b \<and> \<not> quota_full b \<and> \<not> stored_not_array rl b"
  define now where "now = clock b (Suc (reads b))"
  define saved where "saved = saveSubmissionAttempts (Some rl) (tick (tick b)) (pruned rl b)"
  have "\<not> stored_not_array rl (tick (tick b))"
    using ok by (auto simp: stored_not_array_def tick_def)
  then have "\<not> stored_not_array rl saved"
    unfolding saved_def by (rule save_keeps_array)
  then obtain b' where b': "checkAndUpdateRateLimitDisplay (Some rl) saved = Inr b'"
    using check_returns by blast
  have "persisted_log rl saved = pruned rl b"
    unfolding saved_def using ok by (intro persisted_after_save) (simp_all add: tick_def)
  with persisted_after_check [OF b']
  have cases: "persisted_log rl b' = pruned rl b \<or> persisted_log rl b' = []"
    by simp
  have lower: "list_all (after_window_start rl now) (pruned rl b)"
    by (simp add: pruned_def now_def list_all_iff)
  have read: "readable_log rl b = persisted_log rl b"
    using ok by (simp add: readable_log_def)
  have upper: "list_all (within_window rl now) (pruned rl b)"
    if "list_all (\<lambda>t. t \<le> Date_now b) (persisted_log rl b) \<and>
        clock b (reads b) \<le> clock b (Suc (reads b))"
    using that
    by (auto simp: pruned_def now_def list_all_iff read within_window_def after_window_start_def
        Date_now_def)
  have "recordSubmission (Some rl) b = Inr b'"
    using b' ok by (simp add: record_unfold saved_def)
  moreover have "list_all (after_window_start rl now) (persisted_log rl b')"
    using cases lower by auto
  moreover have "list_all (within_window rl now) (persisted_log rl b')"
    if "list_all (\<lambda>t. t \<le> Date_now b) (persisted_log rl b) \<and>
        clock b (reads b) \<le> clock b (Suc (reads b))"
    using cases upper [OF that] by auto
  ultimately show "\<exists>b'. recordSubmission (Some rl) b = Inr b' \<and>
         list_all (after_window_start rl (clock b (Suc (reads b)))) (persisted_log rl b') \<and>
         (list_all (\<lambda>t. t \<le> Date_now b) (persisted_log rl b) \<and>
          clock b (reads b) \<le> clock b (Suc (reads b)) \<longrightarrow>
            list_all (within_window rl (clock b (Suc (reads b)))) (persisted_log rl b'))"
    unfolding now_def by blast
qed

text \<open>
  Witness for C2: the log holds one attempt, two hours old; after \<open>recordSubmission\<close>
  only timestamps of the last hour are persisted.
\<close>

theorem recordSubmission_prunes_storage_witness:
  "\<not> access_denied two_hours_old \<and> \<not> quota_full two_hours_old \<and>
   \<not> stored_not_array one_per_hour two_hours_old \<and>
   (\<exists>b'. recordSubmission (Some one_per_hour) two_hours_old = Inr b' \<and>
      list_all (after_window_start one_per_hour 7200001) (persisted_log one_per_hour b') \<and>
      list_all (within_window one_per_hour 7200001) (persisted_log one_per_hour b'))"
  using recordSubmission_prunes_storage [of two_hours_old one_per_hour None]
  by (simp add: two_hours_old_def browser_at_def persisted_log_def one_per_hour_def Date_now_def
      stored_not_array_def)

text \<open>
  The claim C2 as stated fails for \<open>canSubmit\<close>: with one attempt in the log, two hours
  old, \<open>canSubmit\<close> allows and the entry is still in storage after the call.
\<close>

theorem canSubmit_keeps_stale_entries_counterexample:
  "canSubmit (Some one_per_hour) two_hours_old = Inr (True, tick two_hours_old) \<and>
   \<not> list_all (within_window one_per_hour (Date_now two_hours_old))
       (persisted_log one_per_hour (tick two_hours_old))"
  by (simp add: canSubmit_def Let_def getSubmissionAttempts_def getItem_def JSON_parse_def
      filter_method_def one_per_hour_def two_hours_old_def browser_at_def Date_now_def
      window_ms_def within_window_def persisted_log_def tick_def)

text \<open>
  Claim C1, as the code has it. \<open>canSubmit\<close> answers true exactly when the number of
  timestamps in the persisted log that are later than \<open>now - windowDuration\<close> is less
  than the maximum (the log counting as empty when storage refuses access); the old end of
  the window is excluded and there is no upper end. When what is stored is not an array
  there is no answer: \<open>canSubmit\<close> throws.
\<close>

theorem canSubmit_counts_after_window_start:
  "canSubmit (Some rl) b =
     (if stored_not_array rl b then Inl TypeError
      else Inr (int (length (filter (after_window_start rl (Date_now b)) (readable_log rl b)))
                  < MAX_ATTEMPTS_PER_HOUR rl,
                tick b))"
  by (simp add: canSubmit_def Let_def read_is filter_method_def code_filter)

text \<open>
  The claim C1 as stated, with the closed window \<open>[now - windowDuration, now]\<close>, fails for
  an attempt made exactly one window ago: the claim counts it and refuses, the code does
  not count it and allows.
\<close>

theorem canSubmit_closed_window_counterexample:
  "canSubmit (Some one_per_hour) hour_old = Inr (True, tick hour_old) \<and>
   \<not> (int (length (filter (within_window one_per_hour (Date_now hour_old))
                     (persisted_log one_per_hour hour_old)))
        < MAX_ATTEMPTS_PER_HOUR one_per_hour)"
  by (simp add: canSubmit_def Let_def getSubmissionAttempts_def getItem_def JSON_parse_def
      filter_method_def one_per_hour_def hour_old_def browser_at_def Date_now_def window_ms_def
      within_window_def persisted_log_def)

text \<open>
  Claim C5. A failing read (storage refusing access, or a stored text on which
  \<open>JSON.parse\<close> throws) gives the empty log, so that \<open>canSubmit\<close> allows whenever the
  maximum is positive; a failing write is dropped: \<open>saveSubmissionAttempts\<close> returns the
  browser unchanged. Neither function has an error result, and \<open>recordSubmission\<close>
  returns, whether the write fails or not, whenever what it read is an array.
\<close>

theorem gate_storage_failures:
  "(read_fails rl b \<longrightarrow>
      getSubmissionAttempts (Some rl) b = Attempts [] \<and>
      canSubmit (Some rl) b = Inr (0 < MAX_ATTEMPTS_PER_HOUR rl, tick b)) \<and>
   (write_fails rl b attempts \<longrightarrow> saveSubmissionAttempts (Some rl) b attempts = b) \<and>
   (\<not> stored_not_array rl b \<longrightarrow> (\<exists>b'. recordSubmission (Some rl) b = Inr b'))"
proof -
  have "read_fails rl b \<longrightarrow>
      getSubmissionAttempts (Some rl) b = Attempts [] \<and>
      canSubmit (Some rl) b = Inr (0 < MAX_ATTEMPTS_PER_HOUR rl, tick b)"
    by (auto simp: read_fails_def getSubmissionAttempts_def canSubmit_def Let_def
        filter_method_def split: sum.splits option.splits)
  moreover have "write_fails rl b attempts \<longrightarrow> saveSubmissionAttempts (Some rl) b attempts = b"
    by (auto simp: write_fails_def saveSubmissionAttempts_def split: sum.splits)
  ultimately show ?thesis using record_returns by blast
qed

text \<open>
  Witness for C5: a browser that refuses every storage access, so that the read and the
  write both fail.
\<close>

theorem gate_storage_failures_witness:
  "read_fails one_per_hour refusing_browser \<and>
   getSubmissionAttempts (Some one_per_hour) refusing_browser = Attempts [] \<and>
   canSubmit (Some one_per_hour) refusing_browser = Inr (True, tick refusing_browser) \<and>
   write_fails one_per_hour refusing_browser [5] \<and>
   saveSubmissionAttempts (Some one_per_hour) refusing_browser [5] = refusing_browser \<and>
   \<not> stored_not_array one_per_hour refusing_browser \<and>
   (\<exists>b'. recordSubmission (Some one_per_hour) refusing_browser = Inr b')"
proof -
  have r: "read_fails one_per_hour refusing_browser"
    by (simp add: read_fails_def getItem_def refusing_browser_def browser_at_def)
  have w: "write_fails one_per_hour refusing_browser [5]"
    by (simp add: write_fails_def setItem_def refusing_browser_def browser_at_def)
  have m: "0 < MAX_ATTEMPTS_PER_HOUR one_per_hour"
    by (simp add: one_per_hour_def)
  have n: "\<not> stored_not_array one_per_hour refusing_browser"
    by (simp add: stored_not_array_def refusing_browser_def browser_at_def)
  show ?thesis
    using gate_storage_failures [of one_per_hour refusing_browser "[5]"] r w m n by simp
qed

section \<open>Properties of the translation resolver\<close>

declare loadTranslations.simps [simp del] replace_placeholders.simps [simp del]

lemma loadTranslations_result:
  "loadTranslations w lang st =
     (case serve w lang of
        Some table \<Rightarrow> st\<lparr>fetched := fetched st @ [lang], translations_table := table\<rparr>
      | None \<Rightarrow>
          (if lang = ''en'' then st\<lparr>fetched := fetched st @ [''en'']\<rparr>
           else (case serve w ''en'' of
                   Some table \<Rightarrow> st\<lparr>fetched := fetched st @ [lang, ''en''], translations_table := table\<rparr>
                 | None \<Rightarrow> st\<lparr>fetched := fetched st @ [lang, ''en'']\<rparr>)))"
proof (cases "lang = ''en''")
  case True
  then show ?thesis
    by (subst loadTranslations.simps) (simp add: Let_def split: option.splits)
next
  case False
  have en: "loadTranslations w ''en'' st' =
      (case serve w ''en'' of
         Some table \<Rightarrow> st'\<lparr>fetched := fetched st' @ [''en''], translations_table := table\<rparr>
       | None \<Rightarrow> st'\<lparr>fetched := fetched st' @ [''en'']\<rparr>)" for st'
    by (subst loadTranslations.simps) (simp add: Let_def split: option.splits)
  show ?thesis
    using False
    by (subst loadTranslations.simps) (simp add: Let_def en split: option.splits)
qed

lemma currentLang_loadTranslations: "currentLang (loadTranslations w lang st) = currentLang st"
  by (simp add: loadTranslations_result split: option.splits)

text \<open>
  Claim C6, as the code has it. When the request for \<open>lang\<close> succeeds, its table becomes
  the table. When it fails and \<open>lang\<close> is not \<open>en\<close>, the English table is requested, once:
  if that request succeeds the English table becomes the table, and if it fails the table
  is left as it was. When the failing request is the English one, nothing else is requested
  and the table is left as it was.
\<close>

theorem loadTranslations_fallback:
  "(\<forall>table. serve w lang = Some table \<longrightarrow>
      translations_table (loadTranslations w lang st) = table) \<and>
   (serve w lang = None \<and> lang \<noteq> ''en'' \<longrightarrow>
      fetched (loadTranslations w lang st) = fetched st @ [lang, ''en''] \<and>
      (\<forall>table. serve w ''en'' = Some table \<longrightarrow>
         translations_table (loadTranslations w lang st) = table) \<and>
      (serve w ''en'' = None \<longrightarrow>
         translations_table (loadTranslations w lang st) = translations_table st)) \<and>
   (serve w lang = None \<and> lang = ''en'' \<longrightarrow>
      loadTranslations w lang st = st\<lparr>fetched := fetched st @ [''en'']\<rparr>)"
  by (auto simp: loadTranslations_result split: option.splits)

text \<open>
  Witness for C6: the server has the English table only and Indonesian is asked for.
\<close>

theorem loadTranslations_fallback_witness:
  "serve english_only ''id'' = None \<and> ''id'' \<noteq> ''en'' \<and>
   serve english_only ''en'' = Some (Object [(''title'', String ''Hello'')]) \<and>
   fetched (loadTranslations english_only ''id'' (fresh_i18n ''id'')) = [''id'', ''en''] \<and>
   translations_table (loadTranslations english_only ''id'' (fresh_i18n ''id'')) =
     Object [(''title'', String ''Hello'')]"
  using loadTranslations_fallback [of english_only "''id''" "fresh_i18n ''id''"]
  by (simp add: english_only_def fresh_i18n_def)

text \<open>
  The claim C6 as stated fails for \<open>lang = en\<close>: the request fails, no other request is
  made, and the table is the empty one the constructor set.
\<close>

theorem loadTranslations_english_counterexample:
  "serve offline ''en'' = None \<and>
   translations_table (loadTranslations offline ''en'' (fresh_i18n ''en'')) = Object [] \<and>
   fetched (loadTranslations offline ''en'' (fresh_i18n ''en'')) = [''en'']"
  by (simp add: loadTranslations_result offline_def fresh_i18n_def)

text \<open>
  Claim C7. \<open>setLanguage\<close> with the active language changes nothing: no request, no
  storage write, no change of the URL, no event. A second call with the same language,
  right after a first one, is such a call, however the first one ended.
\<close>

theorem setLanguage_same_language:
  "(lang = currentLang st \<longrightarrow> setLanguage w lang st = (None, st)) \<and>
   setLanguage w lang (snd (setLanguage w lang st)) = (None, snd (setLanguage w lang st))"
proof -
  have "currentLang (snd (setLanguage w lang st)) = lang"
    by (simp add: setLanguage_def Let_def currentLang_loadTranslations)
  then show ?thesis by (simp add: setLanguage_def [of w lang "snd (setLanguage w lang st)"])
      (simp add: setLanguage_def)
qed

text \<open>
  Witness for C7: the active language is Indonesian and Indonesian is asked for.
\<close>

theorem setLanguage_same_language_witness:
  "''id'' = currentLang (fresh_i18n ''id'') \<and>
   setLanguage english_only ''id'' (fresh_i18n ''id'') = (None, fresh_i18n ''id'') \<and>
   fetched (snd (setLanguage english_only ''id'' (fresh_i18n ''id''))) = []"
  using setLanguage_same_language [of "''id''" "fresh_i18n ''id''" english_only]
  by (simp add: fresh_i18n_def)

lemma primary_is_prefix:
  assumes "toLowerCase (takeWhile P s) = p"
  shows "startsWith (toLowerCase s) p"
proof -
  have "toLowerCase s = toLowerCase (takeWhile P s) @ toLowerCase (dropWhile P s)"
    unfolding toLowerCase_def by (simp flip: map_append)
  with assms show ?thesis by (simp add: startsWith_def)
qed

text \<open>
  Claim C8. When \<open>localStorage\<close> can be read, \<open>detectLanguage\<close> returns what the first
  applicable rule names, in the order: the \<open>lang\<close> query parameter if it names a supported
  language, the stored choice if it does, the locale heuristic, and the fixed default
  otherwise. When \<open>localStorage\<close> throws, the query parameter still decides if it names a
  supported language, and the exception is the result otherwise.
\<close>

theorem detectLanguage_precedence:
  "detectLanguage urlLang (Inr saved) nav =
     Inr (first_applicable [names_supported urlLang, names_supported saved, locale_rule nav]
            default_language) \<and>
   detectLanguage urlLang (Inl e) nav =
     (case names_supported urlLang of Some l \<Rightarrow> Inr l | None \<Rightarrow> Inl e)"
proof -
  have sup: "(case v of None \<Rightarrow> False | Some l \<Rightarrow> l \<noteq> [] \<and> l \<in> set [''en'', ''id'', ''ar'']) =
      (names_supported v \<noteq> None)"
    "names_supported v \<noteq> None \<Longrightarrow> names_supported v = Some (the v)" for v
    by (auto simp: names_supported_def supported_def split: option.splits)
  have prim: "\<not> startsWith (toLowerCase s) p \<Longrightarrow> toLowerCase (takeWhile P s) \<noteq> p" for s p P
    using primary_is_prefix by blast
  show ?thesis
    unfolding detectLanguage_def sup(1)
    by (auto simp: sup(2) Let_def locale_rule_def looks_indonesian_def looks_arabic_def
        reported_locale_def default_language_def prim)
qed

lemma not_word_brace [simp]: "\<not> word_char CHR ''{''" "\<not> word_char CHR ''}''"
  by (simp_all add: word_char_def)

lemma replace_Nil [simp]: "replace_placeholders f [] = []"
  by (simp add: replace_placeholders.simps)

lemma replace_match:
  "match_placeholder (c # cs) = Some (name, rest) \<Longrightarrow>
     replace_placeholders f (c # cs) = f (''{{'' @ name @ ''}}'') name @ replace_placeholders f rest"
  by (subst replace_placeholders.simps) simp

lemma replace_no_match:
  "match_placeholder (c # cs) = None \<Longrightarrow>
     replace_placeholders f (c # cs) = c # replace_placeholders f cs"
  by (subst replace_placeholders.simps) simp

lemma match_needs_brace: "CHR ''{'' \<noteq> c \<Longrightarrow> match_placeholder (c # cs) = None"
  by (auto simp: match_placeholder_def)

lemma match_needs_two_braces:
  "cs = [] \<or> hd cs \<noteq> CHR ''{'' \<Longrightarrow> match_placeholder (c # cs) = None"
  by (cases cs) (auto simp: match_placeholder_def)

lemma replace_no_open_brace:
  "CHR ''{'' \<notin> set u \<Longrightarrow> replace_placeholders f (u @ v) = u @ replace_placeholders f v"
  by (induction u) (simp_all add: replace_no_match match_needs_brace)

lemma match_shorter:
  "match_placeholder s = Some (name, rest) \<Longrightarrow> length rest < length s"
proof -
  assume "match_placeholder s = Some (name, rest)"
  then have "rest = drop 2 (dropWhile word_char (drop 2 s))" and "take 2 s = ''{{''"
    by (auto simp: match_placeholder_def Let_def split: if_splits)
  moreover have "length (dropWhile word_char (drop 2 s)) \<le> length (drop 2 s)"
    by (rule length_dropWhile_le)
  ultimately show ?thesis by (cases s) auto
qed

lemma match_shape:
  assumes "match_placeholder s = Some (name, rest)"
  shows "s = ''{{'' @ name @ ''}}'' @ rest \<and> name \<noteq> [] \<and> list_all word_char name"
proof -
  from assms have t2: "take 2 s = ''{{''"
    and name: "name = takeWhile word_char (drop 2 s)" "name \<noteq> []"
    and cl: "take 2 (dropWhile word_char (drop 2 s)) = ''}}''"
    and rest: "rest = drop 2 (dropWhile word_char (drop 2 s))"
    by (auto simp: match_placeholder_def Let_def split: if_splits)
  have "s = take 2 s @ drop 2 s" by simp
  also have "drop 2 s = name @ dropWhile word_char (drop 2 s)"
    by (simp add: name)
  also have "dropWhile word_char (drop 2 s) = ''}}'' @ rest"
    using cl rest by (metis append_take_drop_id)
  finally have "s = ''{{'' @ name @ ''}}'' @ rest" using t2 by simp
  moreover have "list_all word_char name"
    unfolding name(1) list_all_iff by (auto dest: set_takeWhileD)
  ultimately show ?thesis using name(2) by blast
qed

lemma match_token:
  assumes "name \<noteq> []" and "list_all word_char name"
  shows "match_placeholder (''{{'' @ name @ ''}}'' @ post) = Some (name, post)"
proof -
  have w: "\<And>x. x \<in> set name \<Longrightarrow> word_char x"
    using assms(2) by (simp add: list_all_iff)
  have "takeWhile word_char (name @ ''}}'' @ post) = name"
    using w by (simp add: takeWhile_append2)
  moreover have "dropWhile word_char (name @ ''}}'' @ post) = ''}}'' @ post"
    using w by (simp add: dropWhile_append2)
  ultimately show ?thesis using assms(1) by (simp add: match_placeholder_def)
qed

text \<open>A match does not reach into a text that opens with two braces.\<close>

lemma match_append_Some:
  assumes "match_placeholder u = Some (name, rest)"
  shows "match_placeholder (u @ v) = Some (name, rest @ v)"
proof -
  from match_shape [OF assms]
  have u: "u = ''{{'' @ name @ ''}}'' @ rest" and n: "name \<noteq> []" "list_all word_char name"
    by simp_all
  have "u @ v = ''{{'' @ name @ ''}}'' @ (rest @ v)"
    by (subst u) simp
  then show ?thesis using match_token [OF n] by simp
qed

lemma match_append_None:
  assumes "match_placeholder u = None" and "u \<noteq> []" and "take 2 v = ''{{''"
  shows "match_placeholder (u @ v) = None"
proof (rule ccontr)
  assume "match_placeholder (u @ v) \<noteq> None"
  then obtain name rest where m: "match_placeholder (u @ v) = Some (name, rest)"
    by auto
  from match_shape [OF m]
  have eq: "u @ v = ''{{'' @ name @ ''}}'' @ rest" and n: "name \<noteq> []" "list_all word_char name"
    by simp_all
  obtain v' where v: "v = ''{{'' @ v'"
    using assms(3) by (metis append_take_drop_id)
  define tok where "tok = ''{{'' @ name @ ''}}''"
  have eq': "u @ v = tok @ rest" using eq by (simp add: tok_def)
  show False
  proof (cases "length tok \<le> length u")
    case True
    then have "u = tok @ drop (length tok) u"
      using eq' by (metis append_eq_append_conv_if append_take_drop_id)
    then have "match_placeholder u = Some (name, drop (length tok) u)"
      using match_token [OF n, of "drop (length tok) u"] by (simp add: tok_def)
    with assms(1) show False by simp
  next
    case False
    then have lt: "length u < length tok" by simp
    from eq' obtain us where "u = tok @ us \<and> us @ v = rest \<or> u @ us = tok \<and> v = us @ rest"
      by (auto simp: append_eq_append_conv2)
    with lt have us: "u @ us = tok" "v = us @ rest" by auto
    with lt have "us \<noteq> []" by auto
    with us(2) v obtain z where "us = CHR ''{'' # z"
      by (cases us) auto
    with us(1) have tokz: "tok = u @ CHR ''{'' # z" by simp
    have nb: "CHR ''{'' \<notin> set name"
      using n(2) by (auto simp: list_all_iff)
    from tokz assms(2) obtain c cs where u: "u = c # cs" by (cases u) auto
    show False
    proof (cases cs)
      case Nil
      have "take 2 (u @ v) = [c, CHR ''{'']" using u Nil v by simp
      moreover have "drop 2 (u @ v) = CHR ''{'' # v'" using u Nil v by simp
      ultimately have "match_placeholder (u @ v) = None"
        by (simp add: match_placeholder_def)
      with m show False by simp
    next
      case (Cons d ds)
      with tokz u have "tok = c # d # ds @ CHR ''{'' # z"
        by simp
      then have "name @ ''}}'' = ds @ CHR ''{'' # z"
        unfolding tok_def by simp
      then have "CHR ''{'' \<in> set (name @ ''}}'')" by simp
      with nb show False by simp
    qed
  qed
qed

lemma replace_split:
  "take 2 v = ''{{'' \<Longrightarrow>
     replace_placeholders f (u @ v) = replace_placeholders f u @ replace_placeholders f v"
proof (induction u rule: length_induct)
  case (1 u)
  show ?case
  proof (cases u)
    case Nil
    then show ?thesis by simp
  next
    case (Cons c cs)
    show ?thesis
    proof (cases "match_placeholder u")
      case None
      then have "match_placeholder ((c # cs) @ v) = None"
        using match_append_None [of u v] Cons 1(2) by simp
      then have "replace_placeholders f (u @ v) = c # replace_placeholders f (cs @ v)"
        using Cons by (simp add: replace_no_match)
      moreover have "replace_placeholders f (cs @ v) =
          replace_placeholders f cs @ replace_placeholders f v"
        using 1 Cons by simp
      moreover have "replace_placeholders f u = c # replace_placeholders f cs"
        using None Cons by (simp add: replace_no_match)
      ultimately show ?thesis by simp
    next
      case (Some found)
      then obtain name rest where m: "match_placeholder u = Some (name, rest)"
        by (cases found) auto
      have "match_placeholder ((c # cs) @ v) = Some (name, rest @ v)"
        using match_append_Some [OF m, of v] Cons by simp
      then have "replace_placeholders f (u @ v) =
          f (''{{'' @ name @ ''}}'') name @ replace_placeholders f (rest @ v)"
        using Cons by (simp add: replace_match)
      moreover have "replace_placeholders f (rest @ v) =
          replace_placeholders f rest @ replace_placeholders f v"
        using 1 match_shorter [OF m] by simp
      moreover have "replace_placeholders f u =
          f (''{{'' @ name @ ''}}'') name @ replace_placeholders f rest"
        using m Cons by (simp add: replace_match)
      ultimately show ?thesis by simp
    qed
  qed
qed




lemma t_string:
  "resolved rt table key = Inr (String s) \<Longrightarrow>
     t rt table key params = Inr (String (replace_placeholders (param_or_match rt params) s))"
  by (simp add: t_def resolved_def)


lemma replace_not_a_name:
  assumes "CHR ''{'' \<notin> set inner" and "CHR ''}'' \<notin> set inner" and "\<not> list_all word_char inner"
  shows "replace_placeholders f (pre @ ''{{'' @ inner @ ''}}'' @ post) =
     replace_placeholders f pre @ ''{{'' @ inner @ ''}}'' @ replace_placeholders f post"
proof -
  from assms(3) obtain x where x: "x \<in> set inner" "\<not> word_char x"
    by (auto simp: list_all_iff)
  then obtain c cs where inner: "inner = c # cs" by (cases inner) auto
  have c: "CHR ''{'' \<noteq> c" using assms(1) inner by auto
  have tw: "takeWhile word_char (inner @ z) = takeWhile word_char inner" for z
    using x by (rule takeWhile_append1)
  have dw: "dropWhile word_char (inner @ z) = dropWhile word_char inner @ z" for z
    using x by (rule dropWhile_append1)
  have "dropWhile word_char inner \<noteq> []"
    using x by (auto simp: dropWhile_eq_Nil_conv)
  then obtain y ys where y: "dropWhile word_char inner = y # ys"
    by (cases "dropWhile word_char inner") auto
  then have "y \<in> set inner"
    by (metis list.set_intros(1) set_dropWhileD)
  then have "y \<noteq> CHR ''}''" using assms(2) by auto
  then have "take 2 (dropWhile word_char (inner @ ''}}'' @ post)) \<noteq> ''}}''"
    by (simp add: dw y)
  then have m0: "match_placeholder (''{{'' @ inner @ ''}}'' @ post) = None"
    by (simp add: match_placeholder_def tw Let_def)
  have m1: "match_placeholder (CHR ''{'' # inner @ ''}}'' @ post) = None"
    using c by (intro match_needs_two_braces) (simp add: inner)
  have "CHR ''{'' \<notin> set (inner @ ''}}'')" using assms(1) by simp
  then have "replace_placeholders f ((inner @ ''}}'') @ post) =
      (inner @ ''}}'') @ replace_placeholders f post"
    by (rule replace_no_open_brace)
  then have "replace_placeholders f (''{{'' @ inner @ ''}}'' @ post) =
      ''{{'' @ inner @ ''}}'' @ replace_placeholders f post"
    using m0 m1 by (simp add: replace_no_match)
  moreover have "take 2 (''{{'' @ inner @ ''}}'' @ post) = ''{{''" by simp
  ultimately show ?thesis
    using replace_split [of "''{{'' @ inner @ ''}}'' @ post" f pre] by simp
qed

lemma replace_depends_on_names:
  assumes "\<And>name. name \<noteq> [] \<Longrightarrow> list_all word_char name \<Longrightarrow>
      f (''{{'' @ name @ ''}}'') name = g (''{{'' @ name @ ''}}'') name"
  shows "replace_placeholders f s = replace_placeholders g s"
proof (induction s rule: length_induct)
  case (1 s)
  show ?case
  proof (cases s)
    case Nil
    then show ?thesis by simp
  next
    case (Cons c cs)
    show ?thesis
    proof (cases "match_placeholder s")
      case None
      with Cons 1 show ?thesis by (simp add: replace_no_match)
    next
      case (Some found)
      then obtain name rest where m: "match_placeholder s = Some (name, rest)"
        by (cases found) auto
      from match_shape [OF m] have "name \<noteq> []" "list_all word_char name" by simp_all
      then have "f (''{{'' @ name @ ''}}'') name = g (''{{'' @ name @ ''}}'') name"
        by (rule assms)
      moreover have "replace_placeholders f rest = replace_placeholders g rest"
        using 1 match_shorter [OF m] by simp
      ultimately show ?thesis
        using m Cons by (simp add: replace_match)
    qed
  qed
qed






text \<open>
  Claim C10. An occurrence \<open>{{inner}}\<close> (an opening \<open>{{\<close>, an inner text without braces,
  the closing \<open>}}\<close>) whose inner text has a character that is not a word character stays
  as it is, whatever the parameters are; and the result of \<open>t\<close> depends on the parameters
  only through the names made of word characters.
\<close>

theorem t_only_word_names:
  "(\<forall>pre inner post.
        resolved rt table key = Inr (String (pre @ ''{{'' @ inner @ ''}}'' @ post)) \<and>
        CHR ''{'' \<notin> set inner \<and> CHR ''}'' \<notin> set inner \<and> \<not> list_all word_char inner \<longrightarrow>
        t rt table key params =
          Inr (String (replace_placeholders (param_or_match rt params) pre @
                  ''{{'' @ inner @ ''}}'' @
                  replace_placeholders (param_or_match rt params) post))) \<and>
   ((\<forall>name. is_name name \<longrightarrow>
        object_member rt params name = object_member rt params' name) \<longrightarrow>
      t rt table key params = t rt table key params')"
proof (intro conjI allI impI)
  fix pre inner post
  assume a: "resolved rt table key = Inr (String (pre @ ''{{'' @ inner @ ''}}'' @ post)) \<and>
      CHR ''{'' \<notin> set inner \<and> CHR ''}'' \<notin> set inner \<and> \<not> list_all word_char inner"
  then have "replace_placeholders (param_or_match rt params) (pre @ ''{{'' @ inner @ ''}}'' @ post) =
      replace_placeholders (param_or_match rt params) pre @ ''{{'' @ inner @ ''}}'' @
      replace_placeholders (param_or_match rt params) post"
    by (intro replace_not_a_name) simp_all
  with a show "t rt table key params =
          Inr (String (replace_placeholders (param_or_match rt params) pre @
                  ''{{'' @ inner @ ''}}'' @
                  replace_placeholders (param_or_match rt params) post))"
    using t_string [of rt table key _ params] by simp
next
  assume a: "\<forall>name. is_name name \<longrightarrow>
        object_member rt params name = object_member rt params' name"
  have "replace_placeholders (param_or_match rt params) s =
      replace_placeholders (param_or_match rt params') s" for s
    by (rule replace_depends_on_names) (simp add: param_or_match_def a is_name_def)
  then show "t rt table key params = t rt table key params'"
    by (simp add: t_def Let_def split: js_value.splits sum.splits)
qed

text \<open>
  Witness for C10: a hyphen in the name, and a parameter under that very name, in the
  runtime of a browser.
\<close>

theorem t_only_word_names_witness:
  "resolved js_runtime greeting_table ''dear'' =
     Inr (String (''Dear '' @ ''{{'' @ ''first-name'' @ ''}}'' @ [])) \<and>
   CHR ''{'' \<notin> set ''first-name'' \<and> CHR ''}'' \<notin> set ''first-name'' \<and>
   \<not> list_all word_char ''first-name'' \<and>
   t js_runtime greeting_table ''dear'' [(''first-name'', String ''Bob'')] =
     Inr (String ''Dear {{first-name}}'')"
proof -
  have r: "resolved js_runtime greeting_table ''dear'' =
      Inr (String (''Dear '' @ ''{{'' @ ''first-name'' @ ''}}'' @ []))"
    by (simp add: resolved_def greeting_table_def optional_member_def member_def object_member_def)
  have i: "CHR ''{'' \<notin> set ''first-name'' \<and> CHR ''}'' \<notin> set ''first-name'' \<and>
      \<not> list_all word_char ''first-name''"
    by (simp add: word_char_def)
  have pre: "replace_placeholders f (''Dear '' @ []) = ''Dear '' @ replace_placeholders f []" for f
    by (rule replace_no_open_brace) simp
  have "t js_runtime greeting_table ''dear'' [(''first-name'', String ''Bob'')] =
      Inr (String ''Dear {{first-name}}'')"
    using conjunct1 [OF t_only_word_names
        [of js_runtime greeting_table "''dear''" "[(''first-name'', String ''Bob'')]"],
        rule_format, of "''Dear ''" "''first-name''" "[]"] r i pre
    by simp
  with r i show ?thesis by blast
qed



end
